theory Spec2Isabelle
  imports Complex_Main
begin

section \<open>The alert message and the deduplication registry (alert.go, lines 17 to 80)\<close>

text \<open>
  The struct \<^verbatim>\<open>alertMsg\<close> with the fields of the source, in the source's order.
\<close>

record alertMsg =
  pd :: bool
  disc :: bool
  tg :: bool
  severity :: string
  resolved :: bool
  chain :: string
  message :: string
  uniqueId :: string
  key :: string
  tgChannel :: string
  tgKey :: string
  tgMentions :: string
  discHook :: string
  discMentions :: string

text \<open>
  \<^verbatim>\<open>notifyDest\<close> is a \<^verbatim>\<open>uint8\<close> with the three constants \<^verbatim>\<open>pd\<close>, \<^verbatim>\<open>tg\<close>, \<^verbatim>\<open>di\<close>; the file
  passes no other value. The constants carry a prefix because \<^verbatim>\<open>pd\<close> and \<^verbatim>\<open>tg\<close> are also
  fields of \<^verbatim>\<open>alertMsg\<close>.
\<close>

datatype notifyDest = dest_pd | dest_tg | dest_di

text \<open>
  A Go \<^verbatim>\<open>map[string]bool\<close> is a partial map. Reading a key gives the stored value, or
  \<^verbatim>\<open>false\<close> for a key that is absent; \<^verbatim>\<open>delete\<close> removes the key.
\<close>

type_synonym boolmap = "string \<rightharpoonup> bool"

definition lookup :: "boolmap \<Rightarrow> string \<Rightarrow> bool" where
  "lookup m k = (case m k of None \<Rightarrow> False | Some b \<Rightarrow> b)"

definition delete :: "boolmap \<Rightarrow> string \<Rightarrow> boolmap" where
  "delete m k = m(k := None)"

text \<open>
  The three package-level maps. The mutex \<^verbatim>\<open>notifyMux\<close> makes each call of
  \<^verbatim>\<open>shouldNotify\<close> atomic, so a call is one step on this state. The log lines written
  through \<^verbatim>\<open>l\<close> are not part of the state.
\<close>

record dedup =
  sentPdAlarms :: boolmap
  sentTgAlarms :: boolmap
  sentDAlarms :: boolmap

definition dedup_init :: dedup where
  "dedup_init = \<lparr>sentPdAlarms = Map.empty, sentTgAlarms = Map.empty, sentDAlarms = Map.empty\<rparr>"

text \<open>The \<^verbatim>\<open>switch dest\<close> that selects \<^verbatim>\<open>whichMap\<close>, and the write back through that alias.\<close>

fun whichMap :: "notifyDest \<Rightarrow> dedup \<Rightarrow> boolmap" where
  "whichMap dest_pd s = sentPdAlarms s"
| "whichMap dest_tg s = sentTgAlarms s"
| "whichMap dest_di s = sentDAlarms s"

fun whichMap_update :: "notifyDest \<Rightarrow> boolmap \<Rightarrow> dedup \<Rightarrow> dedup" where
  "whichMap_update dest_pd m s = s\<lparr>sentPdAlarms := m\<rparr>"
| "whichMap_update dest_tg m s = s\<lparr>sentTgAlarms := m\<rparr>"
| "whichMap_update dest_di m s = s\<lparr>sentDAlarms := m\<rparr>"

definition shouldNotify :: "alertMsg \<Rightarrow> notifyDest \<Rightarrow> dedup \<Rightarrow> bool \<times> dedup" where
  "shouldNotify msg dest s =
     (if lookup (whichMap dest s) (message msg) \<and> \<not> resolved msg then (False, s)
      else if lookup (whichMap dest s) (message msg) \<and> resolved msg then
        (True, whichMap_update dest (delete (whichMap dest s) (message msg)) s)
      else (True, whichMap_update dest ((whichMap dest s)(message msg \<mapsto> True)) s))"

text \<open>A key is marked active for a destination when reading it in that destination's map gives true.\<close>

definition marked :: "notifyDest \<Rightarrow> string \<Rightarrow> dedup \<Rightarrow> bool" where
  "marked dest k s = lookup (whichMap dest s) k"

text \<open>A sequence of calls of \<^verbatim>\<open>shouldNotify\<close>, in order, the results dropped.\<close>

fun shouldNotify_all :: "(alertMsg \<times> notifyDest) list \<Rightarrow> dedup \<Rightarrow> dedup" where
  "shouldNotify_all [] s = s"
| "shouldNotify_all ((m, d) # cs) s = shouldNotify_all cs (snd (shouldNotify m d s))"

section \<open>The sink wrappers (alert.go, lines 82 to 209)\<close>

text \<open>
  Source strings are byte strings; the two glyphs of the source are written as their UTF-8
  bytes (U+1F6A8 and U+1F49C).
\<close>

definition glyph_alert :: string where
  "glyph_alert = [CHR 0xF0, CHR 0x9F, CHR 0x9A, CHR 0xA8]"

definition glyph_resolved :: string where
  "glyph_resolved = [CHR 0xF0, CHR 0x9F, CHR 0x92, CHR 0x9C]"

record DiscordEmbed =
  Title :: string
  Url_embed :: string
  Description :: string
  Color :: nat

record DiscordMessage =
  Username :: string
  AvatarUrl :: string
  Content :: string
  Embeds :: "DiscordEmbed list"

definition buildDiscordMessage :: "alertMsg \<Rightarrow> DiscordMessage" where
  "buildDiscordMessage msg =
     (let prefix = (if resolved msg then glyph_resolved @ '' Resolved: '' else glyph_alert @ '' ALERT: '')
      in \<lparr>Username = ''tenderuty'', AvatarUrl = [], Content = prefix @ chain msg,
          Embeds = [\<lparr>Title = [], Url_embed = [], Description = message msg, Color = 0\<rparr>]\<rparr>)"

text \<open>The event handed to the paging library (\<^verbatim>\<open>pagerduty.V2Event\<close> with its payload).\<close>

record V2Payload =
  Summary :: string
  Source :: string
  Severity :: string

record V2Event =
  RoutingKey :: string
  Action :: string
  DedupKey :: string
  Payload :: V2Payload

text \<open>
  The libraries the wrappers call are outside the repository. Their outcomes are parameters
  (a Go \<^verbatim>\<open>error\<close> is its text, \<^verbatim>\<open>nil\<close> is \<open>None\<close>), and every call that goes to the
  network is recorded, in order, as a delivery.
\<close>

type_synonym error = string

record world =
  json_MarshalIndent :: "DiscordMessage \<Rightarrow> error + string"
  http_NewRequest :: "string \<Rightarrow> string \<Rightarrow> error option"
  client_Do :: "string \<Rightarrow> string \<Rightarrow> error + nat"
  tgbotapi_NewBotAPI :: "string \<Rightarrow> error option"
  bot_Send :: "string \<Rightarrow> string \<Rightarrow> string \<Rightarrow> error option"
  pagerduty_ManageEvent :: "V2Event \<Rightarrow> error option"

datatype delivery =
    DiscordPost string string
  | TelegramNewBot string
  | TelegramSend string string string
  | PagerdutyEvent V2Event

text \<open>
  A wrapper returns its \<^verbatim>\<open>err\<close>, the deliveries it made and the registry. In
  \<^verbatim>\<open>notifyDiscord\<close> the status check returns \<^verbatim>\<open>err\<close>, which is \<^verbatim>\<open>nil\<close> there because
  \<^verbatim>\<open>client.Do\<close> succeeded.
\<close>

definition notifyDiscord :: "world \<Rightarrow> alertMsg \<Rightarrow> dedup \<Rightarrow> (error option \<times> delivery list) \<times> dedup" where
  "notifyDiscord w msg s =
     (if \<not> disc msg then ((None, []), s)
      else
        (let (ok, s') = shouldNotify msg dest_di s in
         if \<not> ok then ((None, []), s')
         else
           (case json_MarshalIndent w (buildDiscordMessage msg) of
              Inl err \<Rightarrow> ((Some err, []), s')
            | Inr data \<Rightarrow>
               (case http_NewRequest w (discHook msg) data of
                  Some err \<Rightarrow> ((Some err, []), s')
                | None \<Rightarrow>
                   (case client_Do w (discHook msg) data of
                      Inl err \<Rightarrow> ((Some err, [DiscordPost (discHook msg) data]), s')
                    | Inr StatusCode \<Rightarrow> ((None, [DiscordPost (discHook msg) data]), s'))))))"

definition notifyTg :: "world \<Rightarrow> alertMsg \<Rightarrow> dedup \<Rightarrow> (error option \<times> delivery list) \<times> dedup" where
  "notifyTg w msg s =
     (if \<not> tg msg then ((None, []), s)
      else
        (let (ok, s') = shouldNotify msg dest_tg s in
         if \<not> ok then ((None, []), s')
         else
           (case tgbotapi_NewBotAPI w (tgKey msg) of
              Some err \<Rightarrow> ((Some err, [TelegramNewBot (tgKey msg)]), s')
            | None \<Rightarrow>
               (let prefix = (if resolved msg then glyph_resolved @ '' Resolved: '' else glyph_alert @ '' ALERT: '');
                    txt = chain msg @ '': '' @ prefix @ '' - '' @ message msg
                in ((bot_Send w (tgKey msg) (tgChannel msg) txt,
                     [TelegramNewBot (tgKey msg), TelegramSend (tgKey msg) (tgChannel msg) txt]), s')))))"

definition notifyPagerduty :: "world \<Rightarrow> alertMsg \<Rightarrow> dedup \<Rightarrow> (error option \<times> delivery list) \<times> dedup" where
  "notifyPagerduty w msg s =
     (if \<not> pd msg then ((None, []), s)
      else
        (let (ok, s') = shouldNotify msg dest_pd s in
         if \<not> ok then ((None, []), s')
         else if key msg = ''aaaaaaaaaaaabbbbbbbbbbbbbcccccccccccc'' then ((None, []), s')
         else
           (let action = (if resolved msg then ''resolve'' else ''trigger'');
                ev = \<lparr>RoutingKey = key msg, Action = action, DedupKey = uniqueId msg,
                      Payload = \<lparr>Summary = message msg, Source = uniqueId msg, Severity = severity msg\<rparr>\<rparr>
            in ((pagerduty_ManageEvent w ev, [PagerdutyEvent ev]), s'))))"

section \<open>Configuration and the dashboard registry (alert.go, lines 211 to 268)\<close>

text \<open>
  The declarations of \<^verbatim>\<open>Config\<close>, \<^verbatim>\<open>ChainConfig\<close>, the validator info and the node type are
  in files of the repository that are not at hand. The records below hold the fields that
  alert.go reads or writes, under the names it uses; a nested struct is flattened with its
  name as prefix (\<^verbatim>\<open>c.Pagerduty.Enabled\<close> is \<open>Pagerduty_Enabled\<close>), and \<^verbatim>\<open>valInfo.Window\<close>
  carries a suffix because \<^verbatim>\<open>Alerts.Window\<close> is a field too.

  Go's \<^verbatim>\<open>int\<close> and \<^verbatim>\<open>int64\<close> are \<open>int\<close>: no property below depends on wrap-around. A
  \<^verbatim>\<open>time.Time\<close> is the number of nanoseconds since the zero time, a \<^verbatim>\<open>time.Duration\<close> a
  number of nanoseconds. A \<^verbatim>\<open>float64\<close> is the real number it stands for, or one of the
  three values a division by zero gives; rounding is not modelled.
\<close>

type_synonym Time = int

definition IsZero :: "Time \<Rightarrow> bool" where
  "IsZero t = (t = 0)"

definition Before :: "Time \<Rightarrow> Time \<Rightarrow> bool" where
  "Before t u = (t < u)"

definition Add :: "Time \<Rightarrow> int \<Rightarrow> Time" where
  "Add t d = t + d"

definition Sub :: "Time \<Rightarrow> Time \<Rightarrow> int" where
  "Sub t u = t - u"

definition Minute :: int where
  "Minute = 60000000000"

definition Minutes :: "int \<Rightarrow> real" where
  "Minutes d = real_of_int d / real_of_int Minute"

datatype float64 = Fin real | PosInf | NegInf | NaN

definition fdiv :: "real \<Rightarrow> real \<Rightarrow> float64" where
  "fdiv x y = (if y \<noteq> 0 then Fin (x / y) else if 0 < x then PosInf else if x < 0 then NegInf else NaN)"

fun fgt :: "float64 \<Rightarrow> real \<Rightarrow> bool" where
  "fgt (Fin x) t = (t < x)"
| "fgt PosInf t = True"
| "fgt NegInf t = False"
| "fgt NaN t = False"

fun flt :: "float64 \<Rightarrow> real \<Rightarrow> bool" where
  "flt (Fin x) t = (x < t)"
| "flt PosInf t = False"
| "flt NegInf t = True"
| "flt NaN t = False"

text \<open>The conversion \<^verbatim>\<open>int(x)\<close> of a finite \<^verbatim>\<open>float64\<close> drops the fraction.\<close>

definition go_int :: "real \<Rightarrow> int" where
  "go_int x = (if 0 \<le> x then \<lfloor>x\<rfloor> else \<lceil>x\<rceil>)"

record AlertConfig =
  AlertIfNoServers :: bool
  StalledAlerts :: bool
  Stalled :: int
  ConsecutiveAlerts :: bool
  ConsecutiveMissed :: int
  PercentageAlerts :: bool
  Window :: int
  PagerdutyAlerts :: bool
  DiscordAlerts :: bool
  TelegramAlerts :: bool

record ValInfo =
  Moniker :: string
  Valcons :: string
  Missed :: int
  Window_valInfo :: int

record NodeConfig =
  Url :: string
  AlertIfDown :: bool
  down :: bool
  downSince :: Time

text \<open>\<^verbatim>\<open>valInfo\<close> is a pointer that the source compares with \<^verbatim>\<open>nil\<close>.\<close>

record ChainConfig =
  name :: string
  ChainId :: string
  ValAddress :: string
  Alerts :: AlertConfig
  valInfo :: "ValInfo option"
  noNodes :: bool
  lastBlockAlarm :: bool
  lastBlockTime :: Time
  statConsecutiveMiss :: real
  activeAlerts :: int
  Nodes :: "NodeConfig list"

text \<open>
  \<^verbatim>\<open>Chains\<close> maps a chain name to a pointer (\<^verbatim>\<open>watch\<close> has a pointer receiver), so a name
  that is not in the map gives \<^verbatim>\<open>nil\<close>.
\<close>

record Config =
  Pagerduty_Enabled :: bool
  Pagerduty_ApiKey :: string
  Discord_Enabled :: bool
  Discord_Webhook :: string
  Discord_Mentions :: "string list"
  Telegram_Enabled :: bool
  Telegram_ApiKey :: string
  Telegram_Channel :: string
  Telegram_Mentions :: "string list"
  Chains :: "string \<rightharpoonup> ChainConfig"
  NodeDownMin :: int
  HideLogs :: bool
  Prom :: bool

text \<open>
  What \<^verbatim>\<open>alert\<close> writes: the messages sent on \<^verbatim>\<open>c.alertChan\<close>, oldest first (the channel
  is taken to have room, so a send does not block), and the package-level map
  \<^verbatim>\<open>currentAlarms\<close>. An inner map is made by \<^verbatim>\<open>make\<close> before it is stored, so a chain
  is \<^verbatim>\<open>nil\<close> there exactly when it has no entry.
\<close>

record globals =
  alertChan :: "alertMsg list"
  currentAlarms :: "string \<rightharpoonup> boolmap"

definition globals_init :: globals where
  "globals_init = \<lparr>alertChan = [], currentAlarms = Map.empty\<rparr>"

datatype panic = NilDereference

fun Join :: "string list \<Rightarrow> string \<Rightarrow> string" where
  "Join [] sep = []"
| "Join [x] sep = x"
| "Join (x # y # ys) sep = x @ sep @ Join (y # ys) sep"

text \<open>
  \<^verbatim>\<open>getAlarms\<close>. The order in which \<^verbatim>\<open>range\<close> visits the keys of a map is chosen by the
  Go runtime; it is the argument \<open>order\<close>, and \<open>range_order\<close> says that a list is such an
  order for a map: every key once.
\<close>

definition range_order :: "boolmap \<Rightarrow> string list \<Rightarrow> bool" where
  "range_order m ks = (distinct ks \<and> set ks = dom m)"

definition alarm_line :: "string \<Rightarrow> string" where
  "alarm_line k = glyph_alert @ '' '' @ k @ [CHR 0x0A]"

definition getAlarms :: "Config \<Rightarrow> globals \<Rightarrow> string list \<Rightarrow> string \<Rightarrow> string" where
  "getAlarms td g order chainName =
     (if HideLogs td \<or> currentAlarms g chainName = None then []
      else foldl (\<lambda>result k. result @ alarm_line k) [] order)"

text \<open>
  \<^verbatim>\<open>alert\<close>. The pointer \<^verbatim>\<open>id\<close> is an option. The first statement reads a field through
  \<^verbatim>\<open>c.Chains[chainName]\<close> and panics when the chain is not configured.
\<close>

definition alert :: "Config \<Rightarrow> string \<Rightarrow> string \<Rightarrow> string \<Rightarrow> bool \<Rightarrow> string option \<Rightarrow> globals \<Rightarrow> panic + globals" where
  "alert c chainName msgText sev res uid g =
     (case Chains c chainName of
        None \<Rightarrow> Inl NilDereference
      | Some ch \<Rightarrow>
         (let uniq = (case uid of None \<Rightarrow> ValAddress ch | Some i \<Rightarrow> i);
              a = \<lparr>pd = Pagerduty_Enabled c \<and> PagerdutyAlerts (Alerts ch),
                   disc = Discord_Enabled c \<and> DiscordAlerts (Alerts ch),
                   tg = Telegram_Enabled c \<and> TelegramAlerts (Alerts ch),
                   severity = sev,
                   resolved = res,
                   chain = chainName,
                   message = msgText,
                   uniqueId = uniq,
                   key = Pagerduty_ApiKey c,
                   tgChannel = Telegram_Channel c,
                   tgKey = Telegram_ApiKey c,
                   tgMentions = Join (Telegram_Mentions c) '' '',
                   discHook = Discord_Webhook c,
                   discMentions = Join (Discord_Mentions c) '' ''\<rparr>;
              sent = alertChan g @ [a];
              inner = (case currentAlarms g chainName of None \<Rightarrow> Map.empty | Some m \<Rightarrow> m)
          in if res \<and> lookup inner msgText then
               Inr \<lparr>alertChan = sent, currentAlarms = (currentAlarms g)(chainName \<mapsto> delete inner msgText)\<rparr>
             else if res then
               Inr \<lparr>alertChan = sent, currentAlarms = (currentAlarms g)(chainName \<mapsto> inner)\<rparr>
             else
               Inr \<lparr>alertChan = sent, currentAlarms = (currentAlarms g)(chainName \<mapsto> inner(msgText \<mapsto> True))\<rparr>))"

section \<open>The chain monitor (alert.go, lines 270 to 442)\<close>

text \<open>The verb \<^verbatim>\<open>%d\<close> of \<^verbatim>\<open>fmt.Sprintf\<close>: a decimal numeral, with a sign when negative.\<close>

fun digits :: "nat \<Rightarrow> string" where
  "digits n = (if n < 10 then [''0123456789'' ! n] else digits (n div 10) @ [''0123456789'' ! (n mod 10)])"

declare digits.simps [simp del]

definition itoa :: "int \<Rightarrow> string" where
  "itoa i = (if i < 0 then CHR ''-'' # digits (nat (- i)) else digits (nat i))"

text \<open>The five message texts, as the calls of \<^verbatim>\<open>fmt.Sprintf\<close> build them.\<close>

definition msg_noNodes :: "ChainConfig \<Rightarrow> string" where
  "msg_noNodes c = ''no RPC endpoints are working for '' @ ChainId c"

definition msg_stalled :: "ChainConfig \<Rightarrow> string" where
  "msg_stalled c = ''stalled: have not seen a new block on '' @ ChainId c @ '' in ''
     @ itoa (Stalled (Alerts c)) @ '' minutes''"

definition msg_consecutive :: "ValInfo \<Rightarrow> ChainConfig \<Rightarrow> string" where
  "msg_consecutive v c = Moniker v @ '' has missed '' @ itoa (ConsecutiveMissed (Alerts c))
     @ '' blocks on '' @ ChainId c"

definition msg_percent :: "ValInfo \<Rightarrow> ChainConfig \<Rightarrow> string" where
  "msg_percent v c = Moniker v @ '' has missed > '' @ itoa (Window (Alerts c))
     @ ''% of the slashing window's blocks on '' @ ChainId c"

definition msg_node :: "Config \<Rightarrow> NodeConfig \<Rightarrow> ChainConfig \<Rightarrow> string" where
  "msg_node td node c = ''RPC node '' @ Url node @ '' has been down for > '' @ itoa (NodeDownMin td)
     @ '' minutes on '' @ ChainId c"

text \<open>
  The state of one \<^verbatim>\<open>watch\<close> goroutine: the chain it monitors, its four local variables
  (the local \<^verbatim>\<open>noNodes\<close> carries a suffix, \<^verbatim>\<open>cc.noNodes\<close> being a field), and the globals
  that \<^verbatim>\<open>td.alert\<close> writes.
\<close>

record watch_state =
  cc :: ChainConfig
  missedAlarm :: bool
  pctAlarm :: bool
  noNodes_local :: bool
  nodeAlarms :: boolmap
  glob :: globals

definition watch_init :: "ChainConfig \<Rightarrow> globals \<Rightarrow> watch_state" where
  "watch_init c g = \<lparr>cc = c, missedAlarm = False, pctAlarm = False, noNodes_local = False,
     nodeAlarms = Map.empty, glob = g\<rparr>"

definition andThen :: "panic + 'a \<Rightarrow> ('a \<Rightarrow> panic + 'b) \<Rightarrow> panic + 'b" where
  "andThen r f = (case r of Inl e \<Rightarrow> Inl e | Inr x \<Rightarrow> f x)"

definition td_alert :: "Config \<Rightarrow> string \<Rightarrow> string \<Rightarrow> string \<Rightarrow> bool \<Rightarrow> string option \<Rightarrow> watch_state \<Rightarrow> panic + watch_state" where
  "td_alert td chainName msgText sev res uid s =
     andThen (alert td chainName msgText sev res uid (glob s)) (\<lambda>g. Inr (s\<lparr>glob := g\<rparr>))"

definition activeAlerts_add :: "int \<Rightarrow> watch_state \<Rightarrow> watch_state" where
  "activeAlerts_add d s = s\<lparr>cc := (cc s)\<lparr>activeAlerts := activeAlerts (cc s) + d\<rparr>\<rparr>"

text \<open>
  Lines 305 to 323, the alarm for no reachable RPC endpoint. The argument
  \<^verbatim>\<open>&cc.valInfo.Valcons\<close> dereferences \<^verbatim>\<open>cc.valInfo\<close>.
\<close>

definition check_noNodes :: "Config \<Rightarrow> watch_state \<Rightarrow> panic + watch_state" where
  "check_noNodes td s =
     (if AlertIfNoServers (Alerts (cc s)) \<and> \<not> noNodes_local s \<and> noNodes (cc s) then
        (case valInfo (cc s) of
           None \<Rightarrow> Inl NilDereference
         | Some v \<Rightarrow> td_alert td (name (cc s)) (msg_noNodes (cc s)) ''critical'' False (Some (Valcons v))
                      (s\<lparr>noNodes_local := True\<rparr>))
      else if AlertIfNoServers (Alerts (cc s)) \<and> noNodes_local s \<and> \<not> noNodes (cc s) then
        (case valInfo (cc s) of
           None \<Rightarrow> Inl NilDereference
         | Some v \<Rightarrow> td_alert td (name (cc s)) (msg_noNodes (cc s)) ''critical'' True (Some (Valcons v))
                      (s\<lparr>noNodes_local := False\<rparr>))
      else Inr s)"

text \<open>Lines 325 to 346, the stalled chain; \<open>now\<close> is what \<^verbatim>\<open>time.Now()\<close> returns there.\<close>

definition check_stalled :: "Config \<Rightarrow> Time \<Rightarrow> watch_state \<Rightarrow> panic + watch_state" where
  "check_stalled td now s =
     (if StalledAlerts (Alerts (cc s)) \<and> \<not> lastBlockAlarm (cc s) \<and> \<not> IsZero (lastBlockTime (cc s))
         \<and> Before (lastBlockTime (cc s)) (Add now (- Stalled (Alerts (cc s)) * Minute)) then
        (case valInfo (cc s) of
           None \<Rightarrow> Inl NilDereference
         | Some v \<Rightarrow> td_alert td (name (cc s)) (msg_stalled (cc s)) ''critical'' False (Some (Valcons v))
                      (s\<lparr>cc := (cc s)\<lparr>lastBlockAlarm := True\<rparr>\<rparr>))
      else if StalledAlerts (Alerts (cc s)) \<and> lastBlockAlarm (cc s) \<and> IsZero (lastBlockTime (cc s)) then
        (case valInfo (cc s) of
           None \<Rightarrow> Inl NilDereference
         | Some v \<Rightarrow> td_alert td (name (cc s)) (msg_stalled (cc s)) ''critical'' True (Some (Valcons v))
                      (s\<lparr>cc := (cc s)\<lparr>lastBlockAlarm := False\<rparr>\<rparr>))
      else Inr s)"

text \<open>Lines 349 to 373, consecutive missed blocks.\<close>

definition check_consecutive :: "Config \<Rightarrow> watch_state \<Rightarrow> panic + watch_state" where
  "check_consecutive td s =
     (if \<not> missedAlarm s \<and> ConsecutiveAlerts (Alerts (cc s))
         \<and> go_int (statConsecutiveMiss (cc s)) \<ge> ConsecutiveMissed (Alerts (cc s)) then
        (case valInfo (cc s) of
           None \<Rightarrow> Inl NilDereference
         | Some v \<Rightarrow> td_alert td (name (cc s)) (msg_consecutive v (cc s)) ''critical'' False
                      (Some (Valcons v @ ''consecutive''))
                      (activeAlerts_add 1 (s\<lparr>missedAlarm := True\<rparr>)))
      else if missedAlarm s \<and> go_int (statConsecutiveMiss (cc s)) < ConsecutiveMissed (Alerts (cc s)) then
        (case valInfo (cc s) of
           None \<Rightarrow> Inl NilDereference
         | Some v \<Rightarrow> td_alert td (name (cc s)) (msg_consecutive v (cc s)) ''critical'' True
                      (Some (Valcons v @ ''consecutive''))
                      (activeAlerts_add (- 1) (s\<lparr>missedAlarm := False\<rparr>)))
      else Inr s)"

text \<open>
  Lines 377 to 401, the share of the slashing window that was missed. Both conditions read
  \<^verbatim>\<open>cc.valInfo\<close> as soon as the flags before the comparison hold. The clear branch passes
  \<^verbatim>\<open>false\<close> for \<^verbatim>\<open>resolved\<close> (line 398).
\<close>

definition percentage :: "ValInfo \<Rightarrow> float64" where
  "percentage v = fdiv (100 * real_of_int (Missed v)) (real_of_int (Window_valInfo v))"

definition check_percentage :: "Config \<Rightarrow> watch_state \<Rightarrow> panic + watch_state" where
  "check_percentage td s =
     (if PercentageAlerts (Alerts (cc s)) \<and> \<not> pctAlarm s then
        (case valInfo (cc s) of
           None \<Rightarrow> Inl NilDereference
         | Some v \<Rightarrow>
            if fgt (percentage v) (real_of_int (Window (Alerts (cc s)))) then
              td_alert td (name (cc s)) (msg_percent v (cc s)) ''critical'' False
                (Some (Valcons v @ ''percent''))
                (activeAlerts_add 1 (s\<lparr>pctAlarm := True\<rparr>))
            else Inr s)
      else if PercentageAlerts (Alerts (cc s)) \<and> pctAlarm s then
        (case valInfo (cc s) of
           None \<Rightarrow> Inl NilDereference
         | Some v \<Rightarrow>
            if flt (percentage v) (real_of_int (Window (Alerts (cc s)))) then
              td_alert td (name (cc s)) (msg_percent v (cc s)) ''critical'' False
                (Some (Valcons v @ ''percent''))
                (activeAlerts_add (- 1) (s\<lparr>pctAlarm := False\<rparr>))
            else Inr s)
      else Inr s)"

text \<open>
  Lines 404 to 429, one pass of the loop over \<^verbatim>\<open>cc.Nodes\<close> for one node, and the loop. The
  clear branch stores \<^verbatim>\<open>false\<close> under the URL and passes \<^verbatim>\<open>false\<close> for \<^verbatim>\<open>resolved\<close>
  (line 425). \<open>now i\<close> is what \<^verbatim>\<open>time.Now()\<close> returns for the node at position \<open>i\<close>.
\<close>

definition check_node :: "Config \<Rightarrow> Time \<Rightarrow> NodeConfig \<Rightarrow> watch_state \<Rightarrow> panic + watch_state" where
  "check_node td now node s =
     (if AlertIfDown node \<and> down node \<and> \<not> lookup (nodeAlarms s) (Url node) \<and> \<not> IsZero (downSince node)
         \<and> Minutes (Sub now (downSince node)) > real_of_int (NodeDownMin td) then
        td_alert td (name (cc s)) (msg_node td node (cc s)) ''critical'' False (Some (Url node))
          (activeAlerts_add 1 (s\<lparr>nodeAlarms := (nodeAlarms s)(Url node \<mapsto> True)\<rparr>))
      else if lookup (nodeAlarms s) (Url node) \<and> IsZero (downSince node) then
        td_alert td (name (cc s)) (msg_node td node (cc s)) ''critical'' False (Some (Url node))
          (activeAlerts_add (- 1) (s\<lparr>nodeAlarms := (nodeAlarms s)(Url node \<mapsto> False)\<rparr>))
      else Inr s)"

fun check_nodes :: "Config \<Rightarrow> (nat \<Rightarrow> Time) \<Rightarrow> nat \<Rightarrow> NodeConfig list \<Rightarrow> watch_state \<Rightarrow> panic + watch_state" where
  "check_nodes td now i [] s = Inr s"
| "check_nodes td now i (node # rest) s =
     andThen (check_node td (now i) node s) (check_nodes td now (Suc i) rest)"

text \<open>
  One pass of the loop of lines 301 to 441, after the sleep. \<open>now_stalled\<close> and \<open>now_node\<close>
  are the readings of the clock. The pushes to \<^verbatim>\<open>td.statsChan\<close> at the end of the pass
  (\<^verbatim>\<open>mkUpdate\<close> is in another file) touch none of this state and are left out.
\<close>

definition tick :: "Config \<Rightarrow> Time \<Rightarrow> (nat \<Rightarrow> Time) \<Rightarrow> watch_state \<Rightarrow> panic + watch_state" where
  "tick td now_stalled now_node s =
     andThen (check_noNodes td s) (\<lambda>s1.
     andThen (check_stalled td now_stalled s1) (\<lambda>s2.
     andThen (check_consecutive td s2) (\<lambda>s3.
     andThen (check_percentage td s3) (\<lambda>s4.
     check_nodes td now_node 0 (Nodes (cc s4)) s4))))"

text \<open>
  Between two passes the other goroutines rewrite the chain's statistics. A \<open>sample\<close> is
  what the pass finds: the two clock readings and the chain as it then is. The fields
  \<^verbatim>\<open>lastBlockAlarm\<close> and \<^verbatim>\<open>activeAlerts\<close> are written by \<^verbatim>\<open>watch\<close> itself and keep the
  value the last pass left.
\<close>

type_synonym sample = "Time \<times> (nat \<Rightarrow> Time) \<times> ChainConfig"

definition observe :: "ChainConfig \<Rightarrow> watch_state \<Rightarrow> watch_state" where
  "observe obs s = s\<lparr>cc := obs\<lparr>lastBlockAlarm := lastBlockAlarm (cc s), activeAlerts := activeAlerts (cc s)\<rparr>\<rparr>"

text \<open>
  The loop never returns; \<open>watch_loop\<close> gives the state after the passes for a finite list
  of samples, or the panic that ended the goroutine.
\<close>

fun watch_loop :: "Config \<Rightarrow> sample list \<Rightarrow> watch_state \<Rightarrow> panic + watch_state" where
  "watch_loop td [] s = Inr s"
| "watch_loop td ((now_stalled, now_node, obs) # rest) s =
     andThen (tick td now_stalled now_node (observe obs s)) (watch_loop td rest)"

text \<open>
  Lines 277 to 293: before the loop, \<^verbatim>\<open>watch\<close> waits until the validator's moniker is known.
  A pass of the waiting loop is taken to see one sample of the chain. The whole goroutine
  starts from \<open>watch_init\<close>, waits, and then runs the loop on the samples that follow.
\<close>

definition waiting :: "ChainConfig \<Rightarrow> bool" where
  "waiting c = (case valInfo c of None \<Rightarrow> True | Some v \<Rightarrow> Moniker v = ''not connected'')"

definition wait_pass :: "Config \<Rightarrow> watch_state \<Rightarrow> panic + watch_state" where
  "wait_pass td s =
     (if AlertIfNoServers (Alerts (cc s)) \<and> \<not> noNodes_local s \<and> noNodes (cc s) then
        (case valInfo (cc s) of
           None \<Rightarrow> Inl NilDereference
         | Some v \<Rightarrow> td_alert td (name (cc s)) (msg_noNodes (cc s)) ''critical'' False (Some (Valcons v))
                      (s\<lparr>noNodes_local := True\<rparr>))
      else Inr s)"

fun watch :: "Config \<Rightarrow> sample list \<Rightarrow> watch_state \<Rightarrow> panic + watch_state" where
  "watch td [] s = Inr s"
| "watch td ((now_stalled, now_node, obs) # rest) s =
     (if waiting obs then andThen (wait_pass td (observe obs s)) (watch td rest)
      else watch_loop td rest (observe obs s))"

section \<open>Notions used to state the properties\<close>

text \<open>A call of \<^verbatim>\<open>alert\<close> with its arguments, and a sequence of calls run in order.\<close>

record alert_call =
  call_chain :: string
  call_message :: string
  call_severity :: string
  call_resolved :: bool
  call_id :: "string option"

fun alerts :: "Config \<Rightarrow> alert_call list \<Rightarrow> globals \<Rightarrow> panic + globals" where
  "alerts c [] g = Inr g"
| "alerts c (x # xs) g =
     andThen (alert c (call_chain x) (call_message x) (call_severity x) (call_resolved x) (call_id x) g)
       (alerts c xs)"

text \<open>The value of \<^verbatim>\<open>resolved\<close> in the most recent call for a chain and a message text, if any.\<close>

fun last_resolved :: "alert_call list \<Rightarrow> string \<Rightarrow> string \<Rightarrow> bool option" where
  "last_resolved [] ch m = None"
| "last_resolved (x # xs) ch m =
     (case last_resolved xs ch m of
        Some r \<Rightarrow> Some r
      | None \<Rightarrow> if call_chain x = ch \<and> call_message x = m then Some (call_resolved x) else None)"

text \<open>The message texts the dashboard registry holds for a chain: the keys \<^verbatim>\<open>getAlarms\<close> visits.\<close>

definition registry :: "globals \<Rightarrow> string \<Rightarrow> string set" where
  "registry g ch = (case currentAlarms g ch of None \<Rightarrow> {} | Some m \<Rightarrow> dom m)"

text \<open>
  The alarms that \<^verbatim>\<open>watch\<close> counts in \<^verbatim>\<open>activeAlerts\<close>: the consecutive-miss alarm, the
  percentage alarm and one for each node URL whose entry in \<^verbatim>\<open>nodeAlarms\<close> is true.
\<close>

definition alarm_count :: "watch_state \<Rightarrow> int" where
  "alarm_count s = (if missedAlarm s then 1 else 0) + (if pctAlarm s then 1 else 0)
     + int (card {u. lookup (nodeAlarms s) u})"

text \<open>
  The trigger and the clear predicate of the three conditions that \<^verbatim>\<open>watch\<close> counts, as the
  conditions of lines 349 and 361, of lines 377 and 389 (with \<open>v\<close> what \<^verbatim>\<open>cc.valInfo\<close> points
  to) and of lines 406 and 417 read.
\<close>

definition consecutive_trigger :: "watch_state \<Rightarrow> bool" where
  "consecutive_trigger s = (\<not> missedAlarm s \<and> ConsecutiveAlerts (Alerts (cc s))
     \<and> go_int (statConsecutiveMiss (cc s)) \<ge> ConsecutiveMissed (Alerts (cc s)))"

definition consecutive_clear :: "watch_state \<Rightarrow> bool" where
  "consecutive_clear s = (missedAlarm s
     \<and> go_int (statConsecutiveMiss (cc s)) < ConsecutiveMissed (Alerts (cc s)))"

definition percentage_trigger :: "ValInfo \<Rightarrow> watch_state \<Rightarrow> bool" where
  "percentage_trigger v s = (PercentageAlerts (Alerts (cc s)) \<and> \<not> pctAlarm s \<and> valInfo (cc s) = Some v
     \<and> fgt (percentage v) (real_of_int (Window (Alerts (cc s)))))"

definition percentage_clear :: "ValInfo \<Rightarrow> watch_state \<Rightarrow> bool" where
  "percentage_clear v s = (PercentageAlerts (Alerts (cc s)) \<and> pctAlarm s \<and> valInfo (cc s) = Some v
     \<and> flt (percentage v) (real_of_int (Window (Alerts (cc s)))))"

definition node_trigger :: "Config \<Rightarrow> Time \<Rightarrow> NodeConfig \<Rightarrow> watch_state \<Rightarrow> bool" where
  "node_trigger td now node s = (AlertIfDown node \<and> down node \<and> \<not> lookup (nodeAlarms s) (Url node)
     \<and> \<not> IsZero (downSince node) \<and> Minutes (Sub now (downSince node)) > real_of_int (NodeDownMin td))"

definition node_clear :: "NodeConfig \<Rightarrow> watch_state \<Rightarrow> bool" where
  "node_clear node s = (lookup (nodeAlarms s) (Url node) \<and> IsZero (downSince node))"



definition outcome :: "globals \<Rightarrow> panic + watch_state \<Rightarrow> (bool list \<times> int) option" where
  "outcome g r =
     (case r of
        Inl e \<Rightarrow> None
      | Inr s \<Rightarrow> Some (map resolved (drop (length (alertChan g)) (alertChan (glob s))), activeAlerts (cc s)))"

section \<open>Notions used in the proofs\<close>

text \<open>The inner map of a chain in \<^verbatim>\<open>currentAlarms\<close>, empty when the chain has none.\<close>

definition inner_map :: "globals \<Rightarrow> string \<Rightarrow> boolmap" where
  "inner_map g ch = (case currentAlarms g ch of None \<Rightarrow> Map.empty | Some m \<Rightarrow> m)"

text \<open>\<^verbatim>\<open>alert\<close> stores no other value than \<^verbatim>\<open>true\<close>: no key of the registry holds \<^verbatim>\<open>false\<close>.\<close>

definition all_true :: "globals \<Rightarrow> bool" where
  "all_true g = (\<forall>ch k. inner_map g ch k \<noteq> Some False)"

text \<open>
  The invariant of \<^verbatim>\<open>activeAlerts\<close>: it is \<open>a0\<close> plus the number of counted alarms that
  are set, and finitely many node URLs are marked.
\<close>

definition balanced :: "int \<Rightarrow> watch_state \<Rightarrow> bool" where
  "balanced a0 s = (finite {u. lookup (nodeAlarms s) u} \<and> activeAlerts (cc s) = a0 + alarm_count s)"

text \<open>The fields of the chain that the checks read and no check writes.\<close>

definition same_inputs :: "watch_state \<Rightarrow> watch_state \<Rightarrow> bool" where
  "same_inputs s s' = (name (cc s') = name (cc s) \<and> Alerts (cc s') = Alerts (cc s)
     \<and> valInfo (cc s') = valInfo (cc s) \<and> statConsecutiveMiss (cc s') = statConsecutiveMiss (cc s)
     \<and> Nodes (cc s') = Nodes (cc s))"



section \<open>Example values\<close>

text \<open>Concrete values at which the theorems below are instantiated.\<close>

definition msg0 :: alertMsg where
  "msg0 = \<lparr>pd = True, disc = True, tg = True, severity = ''critical'', resolved = False,
     chain = ''chainA'', message = ''validator has missed 5 blocks on chainA'',
     uniqueId = ''valcons1consecutive'', key = ''k'', tgChannel = ''c'', tgKey = ''t'',
     tgMentions = [], discHook = ''h'', discMentions = []\<rparr>"

text \<open>A world in which every call that reaches the network fails.\<close>

definition world_down :: world where
  "world_down = \<lparr>json_MarshalIndent = (\<lambda>m. Inr ''{}''), http_NewRequest = (\<lambda>url body. None),
     client_Do = (\<lambda>url body. Inl ''timeout''), tgbotapi_NewBotAPI = (\<lambda>token. None),
     bot_Send = (\<lambda>token channel txt. Some ''timeout''),
     pagerduty_ManageEvent = (\<lambda>ev. Some ''timeout'')\<rparr>"

definition alerts0 :: AlertConfig where
  "alerts0 = \<lparr>AlertIfNoServers = True, StalledAlerts = True, Stalled = 10, ConsecutiveAlerts = True,
     ConsecutiveMissed = 5, PercentageAlerts = True, Window = 10, PagerdutyAlerts = True,
     DiscordAlerts = True, TelegramAlerts = True\<rparr>"

definition val0 :: ValInfo where
  "val0 = \<lparr>Moniker = ''validator'', Valcons = ''valcons1'', Missed = 0, Window_valInfo = 100\<rparr>"

definition node0 :: NodeConfig where
  "node0 = \<lparr>Url = ''tcp://node:26657'', AlertIfDown = True, down = False, downSince = 0\<rparr>"

definition chain0 :: ChainConfig where
  "chain0 = \<lparr>name = ''chainA'', ChainId = ''chain-1'', ValAddress = ''valoper1'', Alerts = alerts0,
     valInfo = Some val0, noNodes = False, lastBlockAlarm = False, lastBlockTime = 0,
     statConsecutiveMiss = 0, activeAlerts = 0, Nodes = [node0]\<rparr>"

definition td0 :: Config where
  "td0 = \<lparr>Pagerduty_Enabled = True, Pagerduty_ApiKey = ''k'', Discord_Enabled = True,
     Discord_Webhook = ''h'', Discord_Mentions = [], Telegram_Enabled = True, Telegram_ApiKey = ''t'',
     Telegram_Channel = ''c'', Telegram_Mentions = [], Chains = [''chainA'' \<mapsto> chain0],
     NodeDownMin = 10, HideLogs = False, Prom = False\<rparr>"


definition call0 :: "string \<Rightarrow> bool \<Rightarrow> alert_call" where
  "call0 m r = \<lparr>call_chain = ''chainA'', call_message = m, call_severity = ''critical'',
     call_resolved = r, call_id = None\<rparr>"

text \<open>A registry with two alarms for one chain, four calls of \<^verbatim>\<open>alert\<close>, and four samples.\<close>

definition globals_ab :: globals where
  "globals_ab = \<lparr>alertChan = [], currentAlarms = [''chainA'' \<mapsto> [''a'' \<mapsto> True, ''b'' \<mapsto> True]]\<rparr>"

definition calls0 :: "alert_call list" where
  "calls0 = [call0 ''a'' False, call0 ''b'' False, call0 ''a'' True, call0 ''c'' True]"

definition samples0 :: "sample list" where
  "samples0 = [(0, (\<lambda>i. 0), chain0\<lparr>valInfo := None\<rparr>), (0, (\<lambda>i. 0), chain0),
     (0, (\<lambda>i. 0), chain0\<lparr>statConsecutiveMiss := 5\<rparr>), (0, (\<lambda>i. 0), chain0)]"

text \<open>
  A node that has been down since time 1, a chain on which the three counted conditions
  hold at once, and a state in which the three counted alarms are set.
\<close>

definition node_down :: NodeConfig where
  "node_down = node0\<lparr>down := True, downSince := 1\<rparr>"

definition chain_bad :: ChainConfig where
  "chain_bad = chain0\<lparr>statConsecutiveMiss := 5, valInfo := Some (val0\<lparr>Missed := 50\<rparr>),
     Nodes := [node_down]\<rparr>"

definition state_alarmed :: watch_state where
  "state_alarmed = (watch_init chain0 globals_init)\<lparr>missedAlarm := True, pctAlarm := True,
     nodeAlarms := [Url node0 \<mapsto> True]\<rparr>"

section \<open>Sequencing of steps that may panic\<close>

lemma andThen_Inr: "andThen r f = Inr y \<Longrightarrow> \<exists>x. r = Inr x \<and> f x = Inr y"
  by (cases r) (simp_all add: andThen_def)

lemma andThen_simps [simp]: "andThen (Inr x) f = f x" "andThen (Inl e) f = Inl e"
  by (simp_all add: andThen_def)

section \<open>Properties of shouldNotify\<close>

lemma whichMap_update_same: "whichMap dest (whichMap_update dest m s) = m"
  by (cases dest) simp_all

lemma whichMap_update_other: "dest' \<noteq> dest \<Longrightarrow> whichMap dest' (whichMap_update dest m s) = whichMap dest' s"
  by (cases dest; cases dest') simp_all

lemma marked_init: "marked dest k dedup_init = False"
  by (cases dest) (simp_all add: marked_def dedup_init_def lookup_def)

text \<open>
  C2. From the empty registry, for any message and destination: a trigger, a resolution
  and a second resolution all return true, and the key is marked after the trigger and not
  marked after the first resolution. The second resolution finds the key unmarked, falls
  through to line 77 and marks it again, so the key is marked at the end of the sequence.
\<close>

theorem shouldNotify_trigger_resolve_resolve:
  "let trigger = a\<lparr>resolved := False\<rparr>; resolve = a\<lparr>resolved := True\<rparr>;
       r1 = shouldNotify trigger dest dedup_init;
       r2 = shouldNotify resolve dest (snd r1);
       r3 = shouldNotify resolve dest (snd r2)
   in fst r1 = True \<and> fst r2 = True \<and> fst r3 = True
      \<and> marked dest (message a) (snd r1) = True
      \<and> marked dest (message a) (snd r2) = False
      \<and> marked dest (message a) (snd r3) = True"
  by (simp add: Let_def shouldNotify_def marked_def whichMap_update_same lookup_def delete_def
      marked_init [unfolded marked_def lookup_def])

lemma marked_kept:
  assumes "marked dest k s" and "\<not> (resolved m \<and> message m = k \<and> d = dest)"
  shows "marked dest k (snd (shouldNotify m d s))"
proof (cases "d = dest")
  case True
  with assms show ?thesis
    by (auto simp: shouldNotify_def marked_def whichMap_update_same lookup_def delete_def)
next
  case False
  then have "dest \<noteq> d" by simp
  with assms(1) show ?thesis
    by (simp add: shouldNotify_def marked_def whichMap_update_other)
qed

lemma marked_kept_all:
  assumes "marked dest k s" and "\<forall>(m, d) \<in> set cs. \<not> (resolved m \<and> message m = k \<and> d = dest)"
  shows "marked dest k (shouldNotify_all cs s)"
  using assms
proof (induction cs arbitrary: s)
  case Nil
  then show ?case by simp
next
  case (Cons c cs)
  obtain m d where c: "c = (m, d)" by (cases c)
  have "marked dest k (snd (shouldNotify m d s))"
    using marked_kept [of dest k s m d] Cons.prems c by simp
  then show ?case
    using Cons.IH Cons.prems(2) c by simp
qed

text \<open>
  C3. Two calls with resolved = false for the same message text and destination, starting
  where the key is not marked (as in the initial registry): the first returns true and the
  second returns false, when nothing happens between them and also when calls happen
  between them of which none is a resolution of that text for that destination.
\<close>

theorem shouldNotify_twice_unresolved:
  assumes "\<not> marked dest (message m1) s"
    and "\<not> resolved m1" and "\<not> resolved m2" and "message m2 = message m1"
    and "\<forall>(m, d) \<in> set between. \<not> (resolved m \<and> message m = message m1 \<and> d = dest)"
  shows "fst (shouldNotify m1 dest s) = True
       \<and> fst (shouldNotify m2 dest (snd (shouldNotify m1 dest s))) = False
       \<and> fst (shouldNotify m2 dest (shouldNotify_all between (snd (shouldNotify m1 dest s)))) = False"
proof -
  have 1: "fst (shouldNotify m1 dest s) = True" and 2: "marked dest (message m1) (snd (shouldNotify m1 dest s))"
    using assms(1,2) by (simp_all add: shouldNotify_def marked_def whichMap_update_same lookup_def)
  have 3: "marked dest (message m1) (shouldNotify_all between (snd (shouldNotify m1 dest s)))"
    using marked_kept_all [OF 2 assms(5)] .
  have "\<not> fst (shouldNotify m2 dest t)" if "marked dest (message m1) t" for t
    using that assms(3,4) by (simp add: shouldNotify_def marked_def)
  with 1 2 3 show ?thesis by simp
qed

theorem shouldNotify_twice_unresolved_witness:
  "\<not> marked dest_pd (message msg0) dedup_init \<and> \<not> resolved msg0
   \<and> \<not> (resolved (msg0\<lparr>resolved := True\<rparr>) \<and> message (msg0\<lparr>resolved := True\<rparr>) = message msg0 \<and> dest_tg = dest_pd)
   \<and> \<not> (resolved msg0 \<and> message msg0 = message msg0 \<and> dest_di = dest_pd)
   \<and> fst (shouldNotify msg0 dest_pd dedup_init) = True
   \<and> fst (shouldNotify msg0 dest_pd (snd (shouldNotify msg0 dest_pd dedup_init))) = False
   \<and> fst (shouldNotify msg0 dest_pd
        (shouldNotify_all [(msg0\<lparr>resolved := True\<rparr>, dest_tg), (msg0, dest_di)]
           (snd (shouldNotify msg0 dest_pd dedup_init)))) = False"
  using shouldNotify_twice_unresolved [of dest_pd msg0 dedup_init msg0
      "[(msg0\<lparr>resolved := True\<rparr>, dest_tg), (msg0, dest_di)]"]
  by (simp add: marked_init msg0_def)

text \<open>
  C4. A call with resolved = true for a key that is not marked for the destination returns
  true and marks the key, so that the next call with resolved = false for the same message
  text and destination returns false.
\<close>

theorem resolve_unmarked_marks:
  assumes "\<not> marked dest (message m) s" and "resolved m"
    and "message m2 = message m" and "\<not> resolved m2"
  shows "fst (shouldNotify m dest s) = True
       \<and> marked dest (message m) (snd (shouldNotify m dest s))
       \<and> fst (shouldNotify m2 dest (snd (shouldNotify m dest s))) = False"
  using assms
  by (simp add: shouldNotify_def marked_def whichMap_update_same lookup_def)

theorem resolve_unmarked_marks_witness:
  "\<not> marked dest_tg (message msg0) dedup_init \<and> resolved (msg0\<lparr>resolved := True\<rparr>)
   \<and> marked dest_tg (message msg0) (snd (shouldNotify (msg0\<lparr>resolved := True\<rparr>) dest_tg dedup_init))
   \<and> fst (shouldNotify msg0 dest_tg (snd (shouldNotify (msg0\<lparr>resolved := True\<rparr>) dest_tg dedup_init))) = False"
  using resolve_unmarked_marks [of dest_tg "msg0\<lparr>resolved := True\<rparr>" dedup_init msg0]
  by (simp add: marked_init msg0_def)

text \<open>
  C8. A call of shouldNotify for one destination leaves the map of every other destination
  as it was, and with it the mark of every key there.
\<close>

theorem shouldNotify_frame:
  assumes "dest' \<noteq> dest"
  shows "whichMap dest' (snd (shouldNotify msg dest s)) = whichMap dest' s
       \<and> marked dest' k (snd (shouldNotify msg dest s)) = marked dest' k s"
  using assms
  by (simp add: shouldNotify_def marked_def whichMap_update_other)

theorem shouldNotify_frame_witness:
  "dest_tg \<noteq> dest_pd \<and> dest_di \<noteq> dest_pd
   \<and> marked dest_pd (message msg0) (snd (shouldNotify msg0 dest_pd dedup_init))
   \<and> whichMap dest_tg (snd (shouldNotify msg0 dest_pd dedup_init)) = whichMap dest_tg dedup_init
   \<and> whichMap dest_di (snd (shouldNotify msg0 dest_pd dedup_init)) = whichMap dest_di dedup_init
   \<and> \<not> marked dest_tg (message msg0) (snd (shouldNotify msg0 dest_pd dedup_init))
   \<and> \<not> marked dest_di (message msg0) (snd (shouldNotify msg0 dest_pd dedup_init))"
  using shouldNotify_frame [of dest_tg dest_pd msg0 dedup_init "message msg0"]
    shouldNotify_frame [of dest_di dest_pd msg0 dedup_init "message msg0"]
  by (simp add: marked_init) (simp add: shouldNotify_def marked_def lookup_def dedup_init_def msg0_def)

section \<open>Properties of the sink wrappers\<close>

lemma shouldNotify_marks_trigger:
  "\<not> resolved msg \<Longrightarrow> marked dest (message msg) (snd (shouldNotify msg dest s))"
  by (simp add: shouldNotify_def marked_def whichMap_update_same lookup_def)

lemma notifyDiscord_cases:
  "notifyDiscord w msg s = ((e, ds), s') \<Longrightarrow>
     (\<not> disc msg \<and> e = None \<and> ds = [] \<and> s' = s)
   \<or> (disc msg \<and> s' = snd (shouldNotify msg dest_di s) \<and> (ds \<noteq> [] \<longrightarrow> fst (shouldNotify msg dest_di s)))"
  by (auto simp: notifyDiscord_def Let_def split: if_splits prod.splits sum.splits option.splits)

lemma notifyTg_cases:
  "notifyTg w msg s = ((e, ds), s') \<Longrightarrow>
     (\<not> tg msg \<and> e = None \<and> ds = [] \<and> s' = s)
   \<or> (tg msg \<and> s' = snd (shouldNotify msg dest_tg s) \<and> (ds \<noteq> [] \<longrightarrow> fst (shouldNotify msg dest_tg s)))"
  by (auto simp: notifyTg_def Let_def split: if_splits prod.splits sum.splits option.splits)

lemma notifyPagerduty_cases:
  "notifyPagerduty w msg s = ((e, ds), s') \<Longrightarrow>
     (\<not> pd msg \<and> e = None \<and> ds = [] \<and> s' = s)
   \<or> (pd msg \<and> s' = snd (shouldNotify msg dest_pd s) \<and> (ds \<noteq> [] \<longrightarrow> fst (shouldNotify msg dest_pd s)))"
  by (auto simp: notifyPagerduty_def Let_def split: if_splits prod.splits sum.splits option.splits)

text \<open>
  C9. For each of the three wrappers: with the enable flag false it returns no error, makes
  no delivery and leaves the registry as it was; with the flag true the registry it leaves
  is the one shouldNotify leaves, whatever the libraries answer, so a failed delivery
  rolls nothing back and the key of a trigger stays marked; and it makes a delivery only
  when the flag is true and shouldNotify returned true.
\<close>

theorem wrappers_contract:
  "(\<not> pd msg \<longrightarrow> notifyPagerduty w msg s = ((None, []), s))
   \<and> (pd msg \<longrightarrow> snd (notifyPagerduty w msg s) = snd (shouldNotify msg dest_pd s))
   \<and> (snd (fst (notifyPagerduty w msg s)) \<noteq> [] \<longrightarrow> pd msg \<and> fst (shouldNotify msg dest_pd s))
   \<and> (pd msg \<and> \<not> resolved msg \<longrightarrow> marked dest_pd (message msg) (snd (notifyPagerduty w msg s)))
   \<and> (\<not> tg msg \<longrightarrow> notifyTg w msg s = ((None, []), s))
   \<and> (tg msg \<longrightarrow> snd (notifyTg w msg s) = snd (shouldNotify msg dest_tg s))
   \<and> (snd (fst (notifyTg w msg s)) \<noteq> [] \<longrightarrow> tg msg \<and> fst (shouldNotify msg dest_tg s))
   \<and> (tg msg \<and> \<not> resolved msg \<longrightarrow> marked dest_tg (message msg) (snd (notifyTg w msg s)))
   \<and> (\<not> disc msg \<longrightarrow> notifyDiscord w msg s = ((None, []), s))
   \<and> (disc msg \<longrightarrow> snd (notifyDiscord w msg s) = snd (shouldNotify msg dest_di s))
   \<and> (snd (fst (notifyDiscord w msg s)) \<noteq> [] \<longrightarrow> disc msg \<and> fst (shouldNotify msg dest_di s))
   \<and> (disc msg \<and> \<not> resolved msg \<longrightarrow> marked dest_di (message msg) (snd (notifyDiscord w msg s)))"
proof -
  obtain e1 d1 s1 where p: "notifyPagerduty w msg s = ((e1, d1), s1)" by (metis surj_pair)
  obtain e2 d2 s2 where t: "notifyTg w msg s = ((e2, d2), s2)" by (metis surj_pair)
  obtain e3 d3 s3 where d: "notifyDiscord w msg s = ((e3, d3), s3)" by (metis surj_pair)
  note P = notifyPagerduty_cases [OF p] and T = notifyTg_cases [OF t] and D = notifyDiscord_cases [OF d]
  have "\<not> pd msg \<longrightarrow> notifyPagerduty w msg s = ((None, []), s)" by (simp add: notifyPagerduty_def)
  moreover have "\<not> tg msg \<longrightarrow> notifyTg w msg s = ((None, []), s)" by (simp add: notifyTg_def)
  moreover have "\<not> disc msg \<longrightarrow> notifyDiscord w msg s = ((None, []), s)" by (simp add: notifyDiscord_def)
  moreover have "pd msg \<longrightarrow> snd (notifyPagerduty w msg s) = snd (shouldNotify msg dest_pd s)" using P p by auto
  moreover have "tg msg \<longrightarrow> snd (notifyTg w msg s) = snd (shouldNotify msg dest_tg s)" using T t by auto
  moreover have "disc msg \<longrightarrow> snd (notifyDiscord w msg s) = snd (shouldNotify msg dest_di s)" using D d by auto
  moreover have "snd (fst (notifyPagerduty w msg s)) \<noteq> [] \<longrightarrow> pd msg \<and> fst (shouldNotify msg dest_pd s)" using P p by auto
  moreover have "snd (fst (notifyTg w msg s)) \<noteq> [] \<longrightarrow> tg msg \<and> fst (shouldNotify msg dest_tg s)" using T t by auto
  moreover have "snd (fst (notifyDiscord w msg s)) \<noteq> [] \<longrightarrow> disc msg \<and> fst (shouldNotify msg dest_di s)" using D d by auto
  moreover have "pd msg \<and> \<not> resolved msg \<longrightarrow> marked dest_pd (message msg) (snd (notifyPagerduty w msg s))"
    using P p shouldNotify_marks_trigger [of msg dest_pd s] by auto
  moreover have "tg msg \<and> \<not> resolved msg \<longrightarrow> marked dest_tg (message msg) (snd (notifyTg w msg s))"
    using T t shouldNotify_marks_trigger [of msg dest_tg s] by auto
  moreover have "disc msg \<and> \<not> resolved msg \<longrightarrow> marked dest_di (message msg) (snd (notifyDiscord w msg s))"
    using D d shouldNotify_marks_trigger [of msg dest_di s] by auto
  ultimately show ?thesis by blast
qed

lemmas msg0_eval = msg0_def world_down_def dedup_init_def shouldNotify_def marked_def lookup_def
  notifyPagerduty_def notifyTg_def notifyDiscord_def buildDiscordMessage_def Let_def

theorem wrappers_contract_witness:
  "pd msg0 \<and> tg msg0 \<and> disc msg0 \<and> \<not> resolved msg0
   \<and> fst (fst (notifyPagerduty world_down msg0 dedup_init)) = Some ''timeout''
   \<and> snd (fst (notifyPagerduty world_down msg0 dedup_init)) \<noteq> []
   \<and> fst (shouldNotify msg0 dest_pd dedup_init)
   \<and> snd (notifyPagerduty world_down msg0 dedup_init) = snd (shouldNotify msg0 dest_pd dedup_init)
   \<and> marked dest_pd (message msg0) (snd (notifyPagerduty world_down msg0 dedup_init))
   \<and> fst (fst (notifyTg world_down msg0 dedup_init)) = Some ''timeout''
   \<and> snd (fst (notifyTg world_down msg0 dedup_init)) \<noteq> []
   \<and> marked dest_tg (message msg0) (snd (notifyTg world_down msg0 dedup_init))
   \<and> fst (fst (notifyDiscord world_down msg0 dedup_init)) = Some ''timeout''
   \<and> snd (fst (notifyDiscord world_down msg0 dedup_init)) \<noteq> []
   \<and> marked dest_di (message msg0) (snd (notifyDiscord world_down msg0 dedup_init))
   \<and> \<not> pd (msg0\<lparr>pd := False\<rparr>) \<and> \<not> tg (msg0\<lparr>tg := False\<rparr>) \<and> \<not> disc (msg0\<lparr>disc := False\<rparr>)
   \<and> notifyPagerduty world_down (msg0\<lparr>pd := False\<rparr>) dedup_init = ((None, []), dedup_init)
   \<and> notifyTg world_down (msg0\<lparr>tg := False\<rparr>) dedup_init = ((None, []), dedup_init)
   \<and> notifyDiscord world_down (msg0\<lparr>disc := False\<rparr>) dedup_init = ((None, []), dedup_init)"
  using wrappers_contract [of msg0 world_down dedup_init]
    wrappers_contract [of "msg0\<lparr>pd := False\<rparr>" world_down dedup_init]
    wrappers_contract [of "msg0\<lparr>tg := False\<rparr>" world_down dedup_init]
    wrappers_contract [of "msg0\<lparr>disc := False\<rparr>" world_down dedup_init]
  by (simp add: msg0_eval)

section \<open>Properties of the dashboard registry\<close>

lemma foldl_alarm_lines: "foldl (\<lambda>result k. result @ alarm_line k) acc ks = acc @ concat (map alarm_line ks)"
  by (induction ks arbitrary: acc) simp_all

lemma range_order_length: "range_order m ks \<Longrightarrow> length ks = card (dom m)"
  by (metis distinct_card range_order_def)

text \<open>
  C10. With the hide-logs flag set getAlarms returns the empty string, whatever the registry
  holds. With the flag unset it returns, for a chain that has an inner map, the
  concatenation of one line for each key of that map (the glyph, a space, the message
  text and a newline), in the order in which range visits the keys, and nothing for a
  chain that has none.
\<close>

theorem getAlarms_hidden_or_lines:
  "(HideLogs td \<longrightarrow> getAlarms td g order chainName = [])
   \<and> (\<not> HideLogs td \<and> currentAlarms g chainName = None \<longrightarrow> getAlarms td g order chainName = [])
   \<and> (\<not> HideLogs td \<and> currentAlarms g chainName = Some m \<and> range_order m order \<longrightarrow>
        getAlarms td g order chainName = concat (map (\<lambda>k. glyph_alert @ '' '' @ k @ [CHR 0x0A]) order)
        \<and> set order = registry g chainName \<and> length order = card (registry g chainName))"
proof -
  have "getAlarms td g order chainName = concat (map (\<lambda>k. glyph_alert @ '' '' @ k @ [CHR 0x0A]) order)"
    if "\<not> HideLogs td" and "currentAlarms g chainName = Some m"
  proof -
    have "(\<lambda>k. glyph_alert @ '' '' @ k @ [CHR 0x0A]) = alarm_line"
      by (simp add: alarm_line_def fun_eq_iff)
    then show ?thesis
      using that by (simp add: getAlarms_def foldl_alarm_lines)
  qed
  moreover have "set order = registry g chainName \<and> length order = card (registry g chainName)"
    if "currentAlarms g chainName = Some m" and "range_order m order"
    using that range_order_length [of m order] by (simp add: registry_def range_order_def)
  ultimately show ?thesis
    by (simp add: getAlarms_def)
qed

theorem getAlarms_hidden_or_lines_witness:
  "HideLogs (td0\<lparr>HideLogs := True\<rparr>)
   \<and> getAlarms (td0\<lparr>HideLogs := True\<rparr>) globals_ab [''b'', ''a''] ''chainA'' = []
   \<and> \<not> HideLogs td0 \<and> currentAlarms globals_ab ''chainB'' = None
   \<and> getAlarms td0 globals_ab [] ''chainB'' = []
   \<and> currentAlarms globals_ab ''chainA'' = Some [''a'' \<mapsto> True, ''b'' \<mapsto> True]
   \<and> range_order [''a'' \<mapsto> True, ''b'' \<mapsto> True] [''b'', ''a'']
   \<and> getAlarms td0 globals_ab [''b'', ''a''] ''chainA''
       = glyph_alert @ '' b'' @ [CHR 0x0A] @ glyph_alert @ '' a'' @ [CHR 0x0A]
   \<and> card (registry globals_ab ''chainA'') = 2"
proof -
  have r: "range_order [''a'' \<mapsto> True, ''b'' \<mapsto> True] [''b'', ''a'']"
    by (auto simp: range_order_def)
  show ?thesis
    using r getAlarms_hidden_or_lines [of "td0\<lparr>HideLogs := True\<rparr>" globals_ab "[''b'', ''a'']" "''chainA''" "[''a'' \<mapsto> True, ''b'' \<mapsto> True]"]
      getAlarms_hidden_or_lines [of td0 globals_ab "[]" "''chainB''" "[''a'' \<mapsto> True, ''b'' \<mapsto> True]"]
      getAlarms_hidden_or_lines [of td0 globals_ab "[''b'', ''a'']" "''chainA''" "[''a'' \<mapsto> True, ''b'' \<mapsto> True]"]
    by (simp add: td0_def globals_ab_def)
qed

subsection \<open>The registry after a sequence of calls of alert\<close>

lemma registry_inner: "registry g ch = dom (inner_map g ch)"
  by (simp add: registry_def inner_map_def split: option.splits)

lemma alert_inner:
  assumes "alert c ch m sev r uid g = Inr g'"
  shows "inner_map g' ch' =
      (if ch' = ch then
         (if r then (if lookup (inner_map g ch) m then delete (inner_map g ch) m else inner_map g ch)
          else (inner_map g ch)(m \<mapsto> True))
       else inner_map g ch')"
  using assms
  by (cases "Chains c ch") (auto simp: alert_def Let_def inner_map_def split: if_splits)

lemma alert_all_true:
  assumes "alert c ch m sev r uid g = Inr g'" and "all_true g"
  shows "all_true g'"
  unfolding all_true_def
proof (intro allI)
  fix ch' k
  show "inner_map g' ch' k \<noteq> Some False"
    using assms(2) alert_inner [OF assms(1), of ch']
    by (auto simp: all_true_def delete_def)
qed

lemma alert_registry:
  assumes "alert c ch m sev r uid g = Inr g'" and "all_true g"
  shows "registry g' ch' = (if ch' = ch then (if r then registry g ch - {m} else insert m (registry g ch)) else registry g ch')"
proof -
  have "lookup (inner_map g ch) m \<longleftrightarrow> m \<in> dom (inner_map g ch)"
  proof (cases "inner_map g ch m")
    case None
    then show ?thesis by (auto simp: lookup_def)
  next
    case (Some b)
    with assms(2) have "b" by (cases b) (auto simp: all_true_def)
    with Some show ?thesis by (auto simp: lookup_def)
  qed
  then show ?thesis
    using alert_inner [OF assms(1), of ch']
    by (auto simp: registry_inner delete_def)
qed

lemma alert_resolve_absent:
  assumes "alert c ch m sev True uid g = Inr g'" and "m \<notin> registry g ch"
  shows "registry g' ch' = registry g ch'"
proof -
  have "\<not> lookup (inner_map g ch) m"
    using assms(2) by (auto simp: registry_inner lookup_def split: option.splits)
  then show ?thesis
    using alert_inner [OF assms(1), of ch'] by (simp add: registry_inner)
qed

lemma alerts_Cons:
  assumes "alerts c (x # xs) g0 = Inr g"
  obtains g1 where
    "alert c (call_chain x) (call_message x) (call_severity x) (call_resolved x) (call_id x) g0 = Inr g1"
    and "alerts c xs g1 = Inr g"
  using assms by (auto dest: andThen_Inr)

lemma alerts_all_true:
  assumes "alerts c calls g0 = Inr g" and "all_true g0"
  shows "all_true g"
  using assms
proof (induction calls arbitrary: g0)
  case Nil
  then show ?case by simp
next
  case (Cons x xs)
  from Cons.prems(1) obtain g1 where
    step: "alert c (call_chain x) (call_message x) (call_severity x) (call_resolved x) (call_id x) g0 = Inr g1"
    and rest: "alerts c xs g1 = Inr g"
    by (rule alerts_Cons)
  show ?case using Cons.IH [OF rest alert_all_true [OF step Cons.prems(2)]] .
qed

lemma alerts_registry_general:
  assumes "alerts c calls g0 = Inr g" and "all_true g0"
  shows "registry g ch = {m. case last_resolved calls ch m of Some r \<Rightarrow> \<not> r | None \<Rightarrow> m \<in> registry g0 ch}"
  using assms
proof (induction calls arbitrary: g0)
  case Nil
  then show ?case by simp
next
  case (Cons x xs)
  from Cons.prems(1) obtain g1 where
    step: "alert c (call_chain x) (call_message x) (call_severity x) (call_resolved x) (call_id x) g0 = Inr g1"
    and rest: "alerts c xs g1 = Inr g"
    by (rule alerts_Cons)
  have at: "all_true g1" using alert_all_true [OF step Cons.prems(2)] .
  have reg: "registry g1 ch = (if ch = call_chain x then (if call_resolved x then registry g0 (call_chain x) - {call_message x} else insert (call_message x) (registry g0 (call_chain x))) else registry g0 ch)"
    using alert_registry [OF step Cons.prems(2), of ch] .
  show ?case
    unfolding Cons.IH [OF rest at] reg
    by (auto split: option.splits)
qed

lemma registry_init: "registry globals_init ch = {}"
  by (simp add: registry_def globals_init_def)

lemma all_true_init: "all_true globals_init"
  by (simp add: all_true_def inner_map_def globals_init_def)

text \<open>
  C5. After any sequence of calls of alert that starts from the empty registry and does not
  panic, the registry of every chain holds exactly the message texts whose most recent call
  for that chain and text had resolved = false, each stored with the value true. A call
  with resolved = true for a text that the chain's registry does not hold leaves the
  registry of every chain as it was.
\<close>

theorem registry_last_unresolved:
  "(alerts c calls globals_init = Inr g \<longrightarrow>
      registry g ch = {m. last_resolved calls ch m = Some False}
      \<and> (\<forall>m \<in> registry g ch. \<exists>mm. currentAlarms g ch = Some mm \<and> lookup mm m))
   \<and> (alert c ch m sev True uid g0 = Inr g1 \<and> m \<notin> registry g0 ch \<longrightarrow> (\<forall>ch'. registry g1 ch' = registry g0 ch'))"
proof (intro conjI impI)
  assume run: "alerts c calls globals_init = Inr g"
  show "registry g ch = {m. last_resolved calls ch m = Some False}"
    using alerts_registry_general [OF run all_true_init, of ch]
    by (auto simp: registry_init split: option.splits)
  have t: "all_true g" using alerts_all_true [OF run all_true_init] .
  show "\<forall>m \<in> registry g ch. \<exists>mm. currentAlarms g ch = Some mm \<and> lookup mm m"
  proof
    fix m
    assume "m \<in> registry g ch"
    then obtain mm b where mm: "currentAlarms g ch = Some mm" and b: "mm m = Some b"
      by (auto simp: registry_def split: option.splits)
    from t mm have "inner_map g ch m \<noteq> Some False"
      by (simp add: all_true_def)
    with mm b have "b" by (cases b) (simp_all add: inner_map_def)
    with mm b show "\<exists>mm. currentAlarms g ch = Some mm \<and> lookup mm m"
      by (simp add: lookup_def)
  qed
next
  assume "alert c ch m sev True uid g0 = Inr g1 \<and> m \<notin> registry g0 ch"
  then show "\<forall>ch'. registry g1 ch' = registry g0 ch'"
    using alert_resolve_absent by blast
qed

lemmas alert_eval = alert_def td0_def chain0_def alerts0_def val0_def node0_def globals_init_def
  lookup_def delete_def Let_def call0_def calls0_def registry_def

theorem registry_last_unresolved_witness:
  "(\<exists>g. alerts td0 calls0 globals_init = Inr g \<and> registry g ''chainA'' = {''b''}
        \<and> registry g ''chainA'' = {m. last_resolved calls0 ''chainA'' m = Some False}
        \<and> (\<exists>mm. currentAlarms g ''chainA'' = Some mm \<and> lookup mm ''b''))
   \<and> (\<exists>g1. alert td0 ''chainA'' ''c'' ''critical'' True None globals_init = Inr g1
        \<and> ''c'' \<notin> registry globals_init ''chainA'' \<and> registry g1 ''chainA'' = registry globals_init ''chainA'')"
proof -
  obtain g where g: "alerts td0 calls0 globals_init = Inr g" and b: "registry g ''chainA'' = {''b''}"
    by (simp add: alert_eval)
  obtain g1 where g1: "alert td0 ''chainA'' ''c'' ''critical'' True None globals_init = Inr g1"
    and c: "''c'' \<notin> registry globals_init ''chainA''"
    by (simp add: alert_eval)
  show ?thesis
    using g b g1 c
      registry_last_unresolved [of td0 calls0 g "''chainA''" "''c''" "''critical''" None globals_init g1]
    by auto
qed

section \<open>Properties of the chain monitor\<close>

lemmas tick_eval = tick_def check_noNodes_def check_stalled_def check_consecutive_def
  check_percentage_def check_node_def td_alert_def alert_def activeAlerts_add_def watch_init_def
  observe_def outcome_def chain0_def td0_def alerts0_def val0_def node0_def globals_init_def
  lookup_def IsZero_def Before_def Add_def Sub_def Minute_def Minutes_def go_int_def
  percentage_def fdiv_def Let_def delete_def msg_noNodes_def msg_stalled_def msg_consecutive_def
  msg_percent_def msg_node_def

text \<open>
  C1. One pass from a state in which one alarm is set and its clear predicate holds, for
  each of the five conditions in turn. Every pass makes one call of alert. The call carries
  resolved = true for the no-RPC, the stalled and the consecutive-miss alarm, and
  resolved = false for the percentage alarm (line 398) and the node-down alarm (line 425).
\<close>

theorem clear_edges_resolved_flag:
  "outcome globals_init (tick td0 0 (\<lambda>i. 0) ((watch_init chain0 globals_init)\<lparr>noNodes_local := True\<rparr>))
     = Some ([True], 0)
   \<and> outcome globals_init (tick td0 0 (\<lambda>i. 0) (watch_init (chain0\<lparr>lastBlockAlarm := True\<rparr>) globals_init))
     = Some ([True], 0)
   \<and> outcome globals_init (tick td0 0 (\<lambda>i. 0) ((watch_init chain0 globals_init)\<lparr>missedAlarm := True\<rparr>))
     = Some ([True], - 1)
   \<and> outcome globals_init (tick td0 0 (\<lambda>i. 0) ((watch_init chain0 globals_init)\<lparr>pctAlarm := True\<rparr>))
     = Some ([False], - 1)
   \<and> outcome globals_init (tick td0 0 (\<lambda>i. 0)
        ((watch_init chain0 globals_init)\<lparr>nodeAlarms := [''tcp://node:26657'' \<mapsto> True]\<rparr>))
     = Some ([False], - 1)"
  by (simp add: tick_eval)

subsection \<open>The counter activeAlerts\<close>

lemma td_alert_Inr:
  assumes "td_alert td n m sev r uid s = Inr s'"
  shows "\<exists>g'. s' = s\<lparr>glob := g'\<rparr>"
  using assms by (auto simp: td_alert_def dest!: andThen_Inr)

lemma alert_sent:
  assumes "Chains c n = Some ch"
  shows "\<exists>g'. alert c n m sev r uid g = Inr g' \<and> map resolved (alertChan g') = map resolved (alertChan g) @ [r]
     \<and> length (alertChan g') = Suc (length (alertChan g))"
  using assms by (simp add: alert_def Let_def)

lemma balanced_glob [simp]: "balanced a0 (s\<lparr>glob := g\<rparr>) = balanced a0 s"
  by (simp add: balanced_def alarm_count_def)

lemma td_alert_balanced:
  assumes "td_alert td n m sev r uid s = Inr s'"
  shows "balanced a0 s' = balanced a0 s"
  using td_alert_Inr [OF assms] by auto

lemma check_noNodes_frame:
  assumes "check_noNodes td s = Inr s'"
  shows "activeAlerts (cc s') = activeAlerts (cc s) \<and> alarm_count s' = alarm_count s
     \<and> nodeAlarms s' = nodeAlarms s"
  using assms
  by (auto simp: check_noNodes_def alarm_count_def split: if_splits option.splits dest!: td_alert_Inr)

lemma check_stalled_frame:
  assumes "check_stalled td now s = Inr s'"
  shows "activeAlerts (cc s') = activeAlerts (cc s) \<and> alarm_count s' = alarm_count s
     \<and> nodeAlarms s' = nodeAlarms s"
  using assms
  by (auto simp: check_stalled_def alarm_count_def split: if_splits option.splits dest!: td_alert_Inr)

lemma check_noNodes_balanced:
  assumes "check_noNodes td s = Inr s'" and "balanced a0 s"
  shows "balanced a0 s'"
  using check_noNodes_frame [OF assms(1)] assms(2) by (simp add: balanced_def)

lemma check_stalled_balanced:
  assumes "check_stalled td now s = Inr s'" and "balanced a0 s"
  shows "balanced a0 s'"
  using check_stalled_frame [OF assms(1)] assms(2) by (simp add: balanced_def)

lemma check_consecutive_balanced:
  assumes "check_consecutive td s = Inr s'" and "balanced a0 s"
  shows "balanced a0 s'"
  using assms
  by (auto simp: check_consecutive_def balanced_def alarm_count_def activeAlerts_add_def
      split: if_splits option.splits dest!: td_alert_Inr)

lemma check_percentage_balanced:
  assumes "check_percentage td s = Inr s'" and "balanced a0 s"
  shows "balanced a0 s'"
  using assms
  by (auto simp: check_percentage_def balanced_def alarm_count_def activeAlerts_add_def
      split: if_splits option.splits dest!: td_alert_Inr)

lemma marked_set: "\<not> lookup m k \<Longrightarrow> {u. lookup (m(k \<mapsto> True)) u} = insert k {u. lookup m u}"
  by (auto simp: lookup_def)

lemma marked_unset: "{u. lookup (m(k \<mapsto> False)) u} = {u. lookup m u} - {k}"
  by (auto simp: lookup_def)

lemma check_node_balanced:
  assumes "check_node td now node s = Inr s'" and "balanced a0 s"
  shows "balanced a0 s'"
proof -
  let ?k = "Url node"
  let ?M = "{u. lookup (nodeAlarms s) u}"
  have fin: "finite ?M" using assms(2) by (simp add: balanced_def)
  consider (trigger) "\<not> lookup (nodeAlarms s) ?k"
      "td_alert td (name (cc s)) (msg_node td node (cc s)) ''critical'' False (Some ?k)
          (activeAlerts_add 1 (s\<lparr>nodeAlarms := (nodeAlarms s)(?k \<mapsto> True)\<rparr>)) = Inr s'"
    | (clear) "lookup (nodeAlarms s) ?k"
      "td_alert td (name (cc s)) (msg_node td node (cc s)) ''critical'' False (Some ?k)
          (activeAlerts_add (- 1) (s\<lparr>nodeAlarms := (nodeAlarms s)(?k \<mapsto> False)\<rparr>)) = Inr s'"
    | (none) "s' = s"
    using assms(1) by (auto simp: check_node_def split: if_splits)
  then show ?thesis
  proof cases
    case trigger
    have "card (insert ?k ?M) = Suc (card ?M)"
      using fin trigger(1) by simp
    then have "balanced a0 (activeAlerts_add 1 (s\<lparr>nodeAlarms := (nodeAlarms s)(?k \<mapsto> True)\<rparr>))"
      using assms(2) fin trigger(1)
      by (simp add: balanced_def alarm_count_def activeAlerts_add_def marked_set)
    then show ?thesis using td_alert_balanced [OF trigger(2)] by simp
  next
    case clear
    have "card (?M - {?k}) = card ?M - 1" "card ?M > 0"
      using fin clear(1) by (auto simp: card_gt_0_iff)
    then have "balanced a0 (activeAlerts_add (- 1) (s\<lparr>nodeAlarms := (nodeAlarms s)(?k \<mapsto> False)\<rparr>))"
      using assms(2) fin
      by (simp add: balanced_def alarm_count_def activeAlerts_add_def marked_unset)
    then show ?thesis using td_alert_balanced [OF clear(2)] by simp
  next
    case none
    then show ?thesis using assms(2) by simp
  qed
qed

lemma check_nodes_balanced:
  assumes "check_nodes td now i nodes s = Inr s'" and "balanced a0 s"
  shows "balanced a0 s'"
  using assms
proof (induction nodes arbitrary: i s)
  case Nil
  then show ?case by simp
next
  case (Cons node rest)
  from Cons.prems(1) obtain s1 where
    one: "check_node td (now i) node s = Inr s1" and more: "check_nodes td now (Suc i) rest s1 = Inr s'"
    by (auto dest: andThen_Inr)
  show ?case
    using Cons.IH [OF more check_node_balanced [OF one Cons.prems(2)]] .
qed

lemma tick_balanced:
  assumes "tick td t n s = Inr s'" and "balanced a0 s"
  shows "balanced a0 s'"
proof -
  from assms(1) obtain s1 s2 s3 s4 where
    a: "check_noNodes td s = Inr s1" and b: "check_stalled td t s1 = Inr s2"
    and c: "check_consecutive td s2 = Inr s3" and d: "check_percentage td s3 = Inr s4"
    and e: "check_nodes td n 0 (Nodes (cc s4)) s4 = Inr s'"
    unfolding tick_def by (blast dest: andThen_Inr)
  have "balanced a0 s1" using check_noNodes_balanced [OF a assms(2)] .
  then have "balanced a0 s2" using check_stalled_balanced [OF b] by simp
  then have "balanced a0 s3" using check_consecutive_balanced [OF c] by simp
  then have "balanced a0 s4" using check_percentage_balanced [OF d] by simp
  then show ?thesis using check_nodes_balanced [OF e] by simp
qed

lemma observe_balanced [simp]: "balanced a0 (observe obs s) = balanced a0 s"
  by (simp add: balanced_def observe_def alarm_count_def)

lemma watch_loop_balanced:
  assumes "watch_loop td samples s = Inr s'" and "balanced a0 s"
  shows "balanced a0 s'"
  using assms
proof (induction samples arbitrary: s)
  case Nil
  then show ?case by simp
next
  case (Cons x rest)
  obtain t n obs where x: "x = (t, n, obs)" by (cases x)
  from Cons.prems(1) obtain s1 where
    one: "tick td t n (observe obs s) = Inr s1" and more: "watch_loop td rest s1 = Inr s'"
    unfolding x by (auto dest: andThen_Inr)
  have "balanced a0 s1" using tick_balanced [OF one] Cons.prems(2) by simp
  then show ?case using Cons.IH [OF more] by simp
qed

lemma wait_pass_balanced:
  assumes "wait_pass td s = Inr s'" and "balanced a0 s"
  shows "balanced a0 s'"
  using assms
  by (auto simp: wait_pass_def balanced_def alarm_count_def split: if_splits option.splits dest!: td_alert_Inr)

lemma watch_balanced:
  assumes "watch td samples s = Inr s'" and "balanced a0 s"
  shows "balanced a0 s'"
  using assms
proof (induction samples arbitrary: s)
  case Nil
  then show ?case by simp
next
  case (Cons x rest)
  obtain t n obs where x: "x = (t, n, obs)" by (cases x)
  show ?case
  proof (cases "waiting obs")
    case True
    with Cons.prems(1) obtain s1 where
      one: "wait_pass td (observe obs s) = Inr s1" and more: "watch td rest s1 = Inr s'"
      unfolding x by (auto dest: andThen_Inr)
    have "balanced a0 s1" using wait_pass_balanced [OF one] Cons.prems(2) by simp
    then show ?thesis using Cons.IH [OF more] by simp
  next
    case False
    with Cons.prems(1) have "watch_loop td rest (observe obs s) = Inr s'"
      unfolding x by simp
    then show ?thesis using watch_loop_balanced Cons.prems(2) by simp
  qed
qed

lemma balanced_init: "balanced (activeAlerts c) (watch_init c g)"
  by (simp add: balanced_def watch_init_def alarm_count_def lookup_def)

lemma check_consecutive_delta:
  assumes "check_consecutive td s = Inr s'"
  shows "activeAlerts (cc s') - activeAlerts (cc s)
       = (if missedAlarm s' then 1 else 0) - (if missedAlarm s then 1 else 0)"
  using assms
  by (auto simp: check_consecutive_def activeAlerts_add_def
      split: if_splits option.splits dest!: td_alert_Inr)

lemma check_percentage_delta:
  assumes "check_percentage td s = Inr s'"
  shows "activeAlerts (cc s') - activeAlerts (cc s)
       = (if pctAlarm s' then 1 else 0) - (if pctAlarm s then 1 else 0)"
  using assms
  by (auto simp: check_percentage_def activeAlerts_add_def
      split: if_splits option.splits dest!: td_alert_Inr)

lemma check_node_delta:
  assumes "check_node td now node s = Inr s'"
  shows "activeAlerts (cc s') - activeAlerts (cc s)
       = (if lookup (nodeAlarms s') (Url node) then 1 else 0) - (if lookup (nodeAlarms s) (Url node) then 1 else 0)"
  using assms
  by (auto simp: check_node_def activeAlerts_add_def lookup_def
      split: if_splits option.splits dest!: td_alert_Inr)

lemma td_alert_ok:
  assumes "Chains td n = Some ch"
  shows "\<exists>g'. td_alert td n m sev r uid s = Inr (s\<lparr>glob := g'\<rparr>)
     \<and> length (alertChan g') = Suc (length (alertChan (glob s)))"
proof -
  obtain g' where "alert td n m sev r uid (glob s) = Inr g'"
    and "length (alertChan g') = Suc (length (alertChan (glob s)))"
    using alert_sent [OF assms] by blast
  then show ?thesis by (auto simp: td_alert_def)
qed

lemma consecutive_trigger_edge:
  assumes "consecutive_trigger s" and "valInfo (cc s) = Some v" and "Chains td (name (cc s)) = Some ch"
  shows "\<exists>s'. check_consecutive td s = Inr s' \<and> missedAlarm s'
     \<and> activeAlerts (cc s') = activeAlerts (cc s) + 1
     \<and> length (alertChan (glob s')) = Suc (length (alertChan (glob s)))"
proof -
  let ?s1 = "activeAlerts_add 1 (s\<lparr>missedAlarm := True\<rparr>)"
  have n: "Chains td (name (cc s)) = Some ch" by fact
  obtain g' where "td_alert td (name (cc s)) (msg_consecutive v (cc s)) ''critical'' False
       (Some (Valcons v @ ''consecutive'')) ?s1 = Inr (?s1\<lparr>glob := g'\<rparr>)"
    and "length (alertChan g') = Suc (length (alertChan (glob ?s1)))"
    using td_alert_ok [OF n] by blast
  then show ?thesis
    using assms(1,2) by (simp add: check_consecutive_def consecutive_trigger_def activeAlerts_add_def)
qed

lemma consecutive_clear_edge:
  assumes "consecutive_clear s" and "valInfo (cc s) = Some v" and "Chains td (name (cc s)) = Some ch"
  shows "\<exists>s'. check_consecutive td s = Inr s' \<and> \<not> missedAlarm s'
     \<and> activeAlerts (cc s') = activeAlerts (cc s) - 1
     \<and> length (alertChan (glob s')) = Suc (length (alertChan (glob s)))"
proof -
  let ?s1 = "activeAlerts_add (- 1) (s\<lparr>missedAlarm := False\<rparr>)"
  have n: "Chains td (name (cc s)) = Some ch" by fact
  obtain g' where "td_alert td (name (cc s)) (msg_consecutive v (cc s)) ''critical'' True
       (Some (Valcons v @ ''consecutive'')) ?s1 = Inr (?s1\<lparr>glob := g'\<rparr>)"
    and "length (alertChan g') = Suc (length (alertChan (glob ?s1)))"
    using td_alert_ok [OF n] by blast
  then show ?thesis
    using assms(1,2) by (simp add: check_consecutive_def consecutive_clear_def activeAlerts_add_def)
qed

lemma percentage_trigger_edge:
  assumes "percentage_trigger v s" and "Chains td (name (cc s)) = Some ch"
  shows "\<exists>s'. check_percentage td s = Inr s' \<and> pctAlarm s'
     \<and> activeAlerts (cc s') = activeAlerts (cc s) + 1
     \<and> length (alertChan (glob s')) = Suc (length (alertChan (glob s)))"
proof -
  let ?s1 = "activeAlerts_add 1 (s\<lparr>pctAlarm := True\<rparr>)"
  have n: "Chains td (name (cc s)) = Some ch" by fact
  obtain g' where "td_alert td (name (cc s)) (msg_percent v (cc s)) ''critical'' False
       (Some (Valcons v @ ''percent'')) ?s1 = Inr (?s1\<lparr>glob := g'\<rparr>)"
    and "length (alertChan g') = Suc (length (alertChan (glob ?s1)))"
    using td_alert_ok [OF n] by blast
  then show ?thesis
    using assms(1) by (simp add: check_percentage_def percentage_trigger_def activeAlerts_add_def)
qed

lemma percentage_clear_edge:
  assumes "percentage_clear v s" and "Chains td (name (cc s)) = Some ch"
  shows "\<exists>s'. check_percentage td s = Inr s' \<and> \<not> pctAlarm s'
     \<and> activeAlerts (cc s') = activeAlerts (cc s) - 1
     \<and> length (alertChan (glob s')) = Suc (length (alertChan (glob s)))"
proof -
  let ?s1 = "activeAlerts_add (- 1) (s\<lparr>pctAlarm := False\<rparr>)"
  have n: "Chains td (name (cc s)) = Some ch" by fact
  obtain g' where "td_alert td (name (cc s)) (msg_percent v (cc s)) ''critical'' False
       (Some (Valcons v @ ''percent'')) ?s1 = Inr (?s1\<lparr>glob := g'\<rparr>)"
    and "length (alertChan g') = Suc (length (alertChan (glob ?s1)))"
    using td_alert_ok [OF n] by blast
  then show ?thesis
    using assms(1) by (simp add: check_percentage_def percentage_clear_def activeAlerts_add_def)
qed

lemma node_trigger_edge:
  assumes "node_trigger td now node s" and "Chains td (name (cc s)) = Some ch"
  shows "\<exists>s'. check_node td now node s = Inr s' \<and> lookup (nodeAlarms s') (Url node)
     \<and> activeAlerts (cc s') = activeAlerts (cc s) + 1
     \<and> length (alertChan (glob s')) = Suc (length (alertChan (glob s)))"
proof -
  let ?s1 = "activeAlerts_add 1 (s\<lparr>nodeAlarms := (nodeAlarms s)(Url node \<mapsto> True)\<rparr>)"
  have n: "Chains td (name (cc s)) = Some ch" by fact
  obtain g' where "td_alert td (name (cc s)) (msg_node td node (cc s)) ''critical'' False
       (Some (Url node)) ?s1 = Inr (?s1\<lparr>glob := g'\<rparr>)"
    and "length (alertChan g') = Suc (length (alertChan (glob ?s1)))"
    using td_alert_ok [OF n] by blast
  then show ?thesis
    using assms(1) by (simp add: check_node_def node_trigger_def activeAlerts_add_def lookup_def)
qed

lemma node_clear_edge:
  assumes "node_clear node s" and "Chains td (name (cc s)) = Some ch"
  shows "\<exists>s'. check_node td now node s = Inr s' \<and> \<not> lookup (nodeAlarms s') (Url node)
     \<and> activeAlerts (cc s') = activeAlerts (cc s) - 1
     \<and> length (alertChan (glob s')) = Suc (length (alertChan (glob s)))"
proof -
  let ?s1 = "activeAlerts_add (- 1) (s\<lparr>nodeAlarms := (nodeAlarms s)(Url node \<mapsto> False)\<rparr>)"
  have n: "Chains td (name (cc s)) = Some ch" by fact
  obtain g' where "td_alert td (name (cc s)) (msg_node td node (cc s)) ''critical'' False
       (Some (Url node)) ?s1 = Inr (?s1\<lparr>glob := g'\<rparr>)"
    and "length (alertChan g') = Suc (length (alertChan (glob ?s1)))"
    using td_alert_ok [OF n] by blast
  then show ?thesis
    using assms(1) by (simp add: check_node_def node_clear_def activeAlerts_add_def lookup_def)
qed

lemma same_inputs_refl [simp]: "same_inputs s s"
  by (simp add: same_inputs_def)

lemma same_inputs_trans: "same_inputs s s1 \<Longrightarrow> same_inputs s1 s2 \<Longrightarrow> same_inputs s s2"
  by (simp add: same_inputs_def)

lemma check_noNodes_keeps:
  assumes "check_noNodes td s = Inr s'"
  shows "same_inputs s s' \<and> missedAlarm s' = missedAlarm s \<and> pctAlarm s' = pctAlarm s
     \<and> nodeAlarms s' = nodeAlarms s"
  using assms
  by (auto simp: check_noNodes_def same_inputs_def split: if_splits option.splits dest!: td_alert_Inr)

lemma check_stalled_keeps:
  assumes "check_stalled td now s = Inr s'"
  shows "same_inputs s s' \<and> missedAlarm s' = missedAlarm s \<and> pctAlarm s' = pctAlarm s
     \<and> nodeAlarms s' = nodeAlarms s"
  using assms
  by (auto simp: check_stalled_def same_inputs_def split: if_splits option.splits dest!: td_alert_Inr)

lemma check_consecutive_keeps:
  assumes "check_consecutive td s = Inr s'"
  shows "same_inputs s s' \<and> pctAlarm s' = pctAlarm s \<and> nodeAlarms s' = nodeAlarms s"
  using assms
  by (auto simp: check_consecutive_def same_inputs_def activeAlerts_add_def
      split: if_splits option.splits dest!: td_alert_Inr)

lemma check_percentage_keeps:
  assumes "check_percentage td s = Inr s'"
  shows "same_inputs s s' \<and> missedAlarm s' = missedAlarm s \<and> nodeAlarms s' = nodeAlarms s"
  using assms
  by (auto simp: check_percentage_def same_inputs_def activeAlerts_add_def
      split: if_splits option.splits dest!: td_alert_Inr)

lemma check_node_keeps:
  assumes "check_node td now node s = Inr s'"
  shows "same_inputs s s' \<and> missedAlarm s' = missedAlarm s \<and> pctAlarm s' = pctAlarm s
     \<and> (\<forall>u. u \<noteq> Url node \<longrightarrow> lookup (nodeAlarms s') u = lookup (nodeAlarms s) u)"
  using assms
  by (auto simp: check_node_def same_inputs_def activeAlerts_add_def lookup_def
      split: if_splits option.splits dest!: td_alert_Inr)

lemma check_nodes_keeps:
  assumes "check_nodes td now i nodes s = Inr s'"
  shows "same_inputs s s' \<and> missedAlarm s' = missedAlarm s \<and> pctAlarm s' = pctAlarm s
     \<and> (\<forall>u. u \<notin> Url ` set nodes \<longrightarrow> lookup (nodeAlarms s') u = lookup (nodeAlarms s) u)"
  using assms
proof (induction nodes arbitrary: i s)
  case Nil
  then show ?case by simp
next
  case (Cons node rest)
  from Cons.prems obtain s1 where
    one: "check_node td (now i) node s = Inr s1" and more: "check_nodes td now (Suc i) rest s1 = Inr s'"
    by (auto dest: andThen_Inr)
  show ?case
    using check_node_keeps [OF one] Cons.IH [OF more]
    by (auto simp: same_inputs_def)
qed

lemma check_consecutive_sets:
  assumes "check_consecutive td s = Inr s'"
  shows "(consecutive_trigger s \<longrightarrow> missedAlarm s') \<and> (consecutive_clear s \<longrightarrow> \<not> missedAlarm s')"
  using assms
  by (auto simp: check_consecutive_def consecutive_trigger_def consecutive_clear_def activeAlerts_add_def
      split: if_splits option.splits dest!: td_alert_Inr)

lemma check_percentage_sets:
  assumes "check_percentage td s = Inr s'"
  shows "(percentage_trigger v s \<longrightarrow> pctAlarm s') \<and> (percentage_clear v s \<longrightarrow> \<not> pctAlarm s')"
  using assms
  by (auto simp: check_percentage_def percentage_trigger_def percentage_clear_def activeAlerts_add_def
      split: if_splits option.splits dest!: td_alert_Inr)

lemma check_node_sets:
  assumes "check_node td now node s = Inr s'"
  shows "(node_trigger td now node s \<longrightarrow> lookup (nodeAlarms s') (Url node))
     \<and> (node_clear node s \<longrightarrow> \<not> lookup (nodeAlarms s') (Url node))"
  using assms
  by (auto simp: check_node_def node_trigger_def node_clear_def activeAlerts_add_def lookup_def
      split: if_splits option.splits dest!: td_alert_Inr)

lemma check_nodes_sets:
  assumes "check_nodes td now i nodes s = Inr s'" and "distinct (map Url nodes)" and "k < length nodes"
  shows "(node_trigger td (now (i + k)) (nodes ! k) s \<longrightarrow> lookup (nodeAlarms s') (Url (nodes ! k)))
     \<and> (node_clear (nodes ! k) s \<longrightarrow> \<not> lookup (nodeAlarms s') (Url (nodes ! k)))"
  using assms
proof (induction nodes arbitrary: i k s)
  case Nil
  then show ?case by simp
next
  case (Cons node rest)
  from Cons.prems(1) obtain s1 where
    one: "check_node td (now i) node s = Inr s1" and more: "check_nodes td now (Suc i) rest s1 = Inr s'"
    by (auto dest: andThen_Inr)
  have d: "Url node \<notin> Url ` set rest" "distinct (map Url rest)"
    using Cons.prems(2) by auto
  show ?case
  proof (cases k)
    case 0
    have "lookup (nodeAlarms s') (Url node) = lookup (nodeAlarms s1) (Url node)"
      using check_nodes_keeps [OF more] d(1) by blast
    then show ?thesis
      using check_node_sets [OF one] 0 by simp
  next
    case (Suc j)
    then have j: "j < length rest" using Cons.prems(3) by simp
    have "rest ! j \<in> set rest" using j by simp
    then have "Url (rest ! j) \<in> Url ` set rest" by (rule imageI)
    then have "Url (rest ! j) \<noteq> Url node" using d(1) by metis
    then have "lookup (nodeAlarms s1) (Url (rest ! j)) = lookup (nodeAlarms s) (Url (rest ! j))"
      using check_node_keeps [OF one] by blast
    then have "node_trigger td (now (Suc i + j)) (rest ! j) s1 = node_trigger td (now (Suc i + j)) (rest ! j) s"
      and "node_clear (rest ! j) s1 = node_clear (rest ! j) s"
      by (simp_all add: node_trigger_def node_clear_def)
    then show ?thesis
      using Cons.IH [OF more d(2) j] Suc by simp
  qed
qed

lemma tick_stages:
  assumes "tick td t n s = Inr s'"
  obtains s1 s2 s3 s4 where
    "check_noNodes td s = Inr s1" "check_stalled td t s1 = Inr s2"
    "check_consecutive td s2 = Inr s3" "check_percentage td s3 = Inr s4"
    "check_nodes td n 0 (Nodes (cc s4)) s4 = Inr s'"
  using assms unfolding tick_def by (blast dest: andThen_Inr)

lemma consecutive_pred_cong:
  "same_inputs s s' \<Longrightarrow> missedAlarm s' = missedAlarm s \<Longrightarrow>
   consecutive_trigger s' = consecutive_trigger s \<and> consecutive_clear s' = consecutive_clear s"
  by (simp add: same_inputs_def consecutive_trigger_def consecutive_clear_def)

lemma percentage_pred_cong:
  "same_inputs s s' \<Longrightarrow> pctAlarm s' = pctAlarm s \<Longrightarrow>
   percentage_trigger v s' = percentage_trigger v s \<and> percentage_clear v s' = percentage_clear v s"
  by (simp add: same_inputs_def percentage_trigger_def percentage_clear_def)

lemma tick_sets:
  assumes "tick td t n s = Inr s'"
  shows "(consecutive_trigger s \<longrightarrow> missedAlarm s') \<and> (consecutive_clear s \<longrightarrow> \<not> missedAlarm s')"
    and "(percentage_trigger v s \<longrightarrow> pctAlarm s') \<and> (percentage_clear v s \<longrightarrow> \<not> pctAlarm s')"
    and "distinct (map Url (Nodes (cc s))) \<Longrightarrow> k < length (Nodes (cc s)) \<Longrightarrow>
      (node_trigger td (n k) (Nodes (cc s) ! k) s \<longrightarrow> lookup (nodeAlarms s') (Url (Nodes (cc s) ! k)))
      \<and> (node_clear (Nodes (cc s) ! k) s \<longrightarrow> \<not> lookup (nodeAlarms s') (Url (Nodes (cc s) ! k)))"
proof -
  from assms obtain s1 s2 s3 s4 where
    a: "check_noNodes td s = Inr s1" and b: "check_stalled td t s1 = Inr s2"
    and c: "check_consecutive td s2 = Inr s3" and d: "check_percentage td s3 = Inr s4"
    and e: "check_nodes td n 0 (Nodes (cc s4)) s4 = Inr s'"
    by (rule tick_stages)
  note A = check_noNodes_keeps [OF a] and B = check_stalled_keeps [OF b]
    and C = check_consecutive_keeps [OF c] and D = check_percentage_keeps [OF d]
    and E = check_nodes_keeps [OF e]
  have i2: "same_inputs s s2" "missedAlarm s2 = missedAlarm s" "pctAlarm s2 = pctAlarm s" "nodeAlarms s2 = nodeAlarms s"
    using A B by (auto intro: same_inputs_trans)
  have i3: "same_inputs s s3" "pctAlarm s3 = pctAlarm s" "nodeAlarms s3 = nodeAlarms s"
    using i2 C by (auto intro: same_inputs_trans)
  have i4: "same_inputs s s4" "nodeAlarms s4 = nodeAlarms s"
    using i3 D by (auto intro: same_inputs_trans)
  have "missedAlarm s' = missedAlarm s3" using D E by simp
  then show "(consecutive_trigger s \<longrightarrow> missedAlarm s') \<and> (consecutive_clear s \<longrightarrow> \<not> missedAlarm s')"
    using check_consecutive_sets [OF c] consecutive_pred_cong [OF i2(1,2)] by simp
  have "pctAlarm s' = pctAlarm s4" using E by simp
  then show "(percentage_trigger v s \<longrightarrow> pctAlarm s') \<and> (percentage_clear v s \<longrightarrow> \<not> pctAlarm s')"
    using check_percentage_sets [OF d, of v] percentage_pred_cong [OF i3(1,2), of v] by simp
  assume dk: "distinct (map Url (Nodes (cc s)))" "k < length (Nodes (cc s))"
  have N: "Nodes (cc s4) = Nodes (cc s)" using i4(1) by (simp add: same_inputs_def)
  have "node_trigger td (n k) (Nodes (cc s) ! k) s4 = node_trigger td (n k) (Nodes (cc s) ! k) s"
    and "node_clear (Nodes (cc s) ! k) s4 = node_clear (Nodes (cc s) ! k) s"
    using i4(2) by (simp_all add: node_trigger_def node_clear_def)
  then show "(node_trigger td (n k) (Nodes (cc s) ! k) s \<longrightarrow> lookup (nodeAlarms s') (Url (Nodes (cc s) ! k)))
      \<and> (node_clear (Nodes (cc s) ! k) s \<longrightarrow> \<not> lookup (nodeAlarms s') (Url (Nodes (cc s) ! k)))"
    using check_nodes_sets [OF e [unfolded N] dk] by simp
qed

lemma checks_idle:
  "\<not> consecutive_trigger s \<and> \<not> consecutive_clear s \<longrightarrow> check_consecutive td s = Inr s"
  "valInfo (cc s) = Some v \<and> \<not> percentage_trigger v s \<and> \<not> percentage_clear v s \<longrightarrow>
     check_percentage td s = Inr s"
  "\<not> node_trigger td now node s \<and> \<not> node_clear node s \<longrightarrow> check_node td now node s = Inr s"
  by (auto simp: check_consecutive_def consecutive_trigger_def consecutive_clear_def
      check_percentage_def percentage_trigger_def percentage_clear_def
      check_node_def node_trigger_def node_clear_def)

lemma check_noNodes_ok:
  assumes "valInfo (cc s) = Some v" and "Chains td (name (cc s)) = Some ch"
  shows "\<exists>s'. check_noNodes td s = Inr s'"
proof -
  have "\<exists>s'. td_alert td (name (cc s)) m sev r uid (s\<lparr>noNodes_local := b\<rparr>) = Inr s'" for m sev r uid b
    using td_alert_ok [of td "name (cc s)" ch m sev r uid "s\<lparr>noNodes_local := b\<rparr>"] assms(2) by auto
  then show ?thesis
    using assms(1) by (simp add: check_noNodes_def)
qed

lemma check_stalled_ok:
  assumes "valInfo (cc s) = Some v" and "Chains td (name (cc s)) = Some ch"
  shows "\<exists>s'. check_stalled td now s = Inr s'"
proof -
  have "\<exists>s'. td_alert td (name (cc s)) m sev r uid (s\<lparr>cc := (cc s)\<lparr>lastBlockAlarm := b\<rparr>\<rparr>) = Inr s'" for m sev r uid b
    using td_alert_ok [of td "name (cc s)" ch m sev r uid "s\<lparr>cc := (cc s)\<lparr>lastBlockAlarm := b\<rparr>\<rparr>"] assms(2) by auto
  then show ?thesis
    using assms(1) by (simp add: check_stalled_def)
qed

lemma check_consecutive_ok:
  assumes "valInfo (cc s) = Some v" and "Chains td (name (cc s)) = Some ch"
  shows "\<exists>s'. check_consecutive td s = Inr s'"
proof -
  have "\<exists>s'. td_alert td (name (cc s)) m sev r uid (activeAlerts_add d (s\<lparr>missedAlarm := b\<rparr>)) = Inr s'" for m sev r uid b d
    using td_alert_ok [of td "name (cc s)" ch m sev r uid "activeAlerts_add d (s\<lparr>missedAlarm := b\<rparr>)"] assms(2) by auto
  then show ?thesis
    using assms(1) by (simp add: check_consecutive_def)
qed

lemma check_percentage_ok:
  assumes "valInfo (cc s) = Some v" and "Chains td (name (cc s)) = Some ch"
  shows "\<exists>s'. check_percentage td s = Inr s'"
proof -
  have "\<exists>s'. td_alert td (name (cc s)) m sev r uid (activeAlerts_add d (s\<lparr>pctAlarm := b\<rparr>)) = Inr s'" for m sev r uid b d
    using td_alert_ok [of td "name (cc s)" ch m sev r uid "activeAlerts_add d (s\<lparr>pctAlarm := b\<rparr>)"] assms(2) by auto
  then show ?thesis
    using assms(1) by (simp add: check_percentage_def)
qed

lemma check_node_ok:
  assumes "Chains td (name (cc s)) = Some ch"
  shows "\<exists>s'. check_node td now node s = Inr s'"
proof -
  have "\<exists>s'. td_alert td (name (cc s)) m sev r uid (activeAlerts_add d (s\<lparr>nodeAlarms := a\<rparr>)) = Inr s'" for m sev r uid a d
    using td_alert_ok [of td "name (cc s)" ch m sev r uid "activeAlerts_add d (s\<lparr>nodeAlarms := a\<rparr>)"] assms by auto
  then show ?thesis
    by (simp add: check_node_def)
qed

lemma check_nodes_ok:
  assumes "Chains td (name (cc s)) = Some ch"
  shows "\<exists>s'. check_nodes td now i nodes s = Inr s'"
  using assms
proof (induction nodes arbitrary: i s)
  case Nil
  then show ?case by simp
next
  case (Cons node rest)
  obtain s1 where one: "check_node td (now i) node s = Inr s1"
    using check_node_ok [OF Cons.prems] by blast
  have "name (cc s1) = name (cc s)"
    using check_node_keeps [OF one] by (simp add: same_inputs_def)
  then show ?case
    using Cons.IH [of s1 "Suc i"] Cons.prems one by simp
qed

lemma tick_ok:
  assumes "valInfo (cc s) = Some v" and "Chains td (name (cc s)) = Some ch"
  shows "\<exists>s'. tick td t n s = Inr s'"
proof -
  obtain s1 where a: "check_noNodes td s = Inr s1"
    using check_noNodes_ok [OF assms] by blast
  have k1: "valInfo (cc s1) = Some v" "Chains td (name (cc s1)) = Some ch"
    using check_noNodes_keeps [OF a] assms by (simp_all add: same_inputs_def)
  obtain s2 where b: "check_stalled td t s1 = Inr s2"
    using check_stalled_ok [OF k1] by blast
  have k2: "valInfo (cc s2) = Some v" "Chains td (name (cc s2)) = Some ch"
    using check_stalled_keeps [OF b] k1 by (simp_all add: same_inputs_def)
  obtain s3 where c: "check_consecutive td s2 = Inr s3"
    using check_consecutive_ok [OF k2] by blast
  have k3: "valInfo (cc s3) = Some v" "Chains td (name (cc s3)) = Some ch"
    using check_consecutive_keeps [OF c] k2 by (simp_all add: same_inputs_def)
  obtain s4 where d: "check_percentage td s3 = Inr s4"
    using check_percentage_ok [OF k3] by blast
  have k4: "Chains td (name (cc s4)) = Some ch"
    using check_percentage_keeps [OF d] k3 by (simp_all add: same_inputs_def)
  obtain s' where "check_nodes td n 0 (Nodes (cc s4)) s4 = Inr s'"
    using check_nodes_ok [OF k4] by blast
  then show ?thesis
    using a b c d by (auto simp: tick_def)
qed

lemma tick_counts:
  assumes "tick td t n s = Inr s'" and "finite {u. lookup (nodeAlarms s) u}"
  shows "activeAlerts (cc s') - activeAlerts (cc s) = alarm_count s' - alarm_count s"
proof -
  have "balanced (activeAlerts (cc s) - alarm_count s) s"
    using assms(2) by (simp add: balanced_def)
  then have "balanced (activeAlerts (cc s) - alarm_count s) s'"
    using tick_balanced [OF assms(1)] by simp
  then show ?thesis by (simp add: balanced_def)
qed

text \<open>
  C6, as the claim states it, fails: on the trigger edge of the no-RPC alarm and on the
  trigger edge of the stalled alarm the pass calls alert once with resolved = false and
  leaves activeAlerts at its value, here 0, not 1.
\<close>

theorem activeAlerts_five_conditions_counterexample:
  "outcome globals_init (tick td0 0 (\<lambda>i. 0) (watch_init (chain0\<lparr>noNodes := True\<rparr>) globals_init))
     = Some ([False], activeAlerts chain0)
   \<and> outcome globals_init (tick td0 0 (\<lambda>i. 0) (watch_init (chain0\<lparr>noNodes := True\<rparr>) globals_init))
     \<noteq> Some ([False], activeAlerts chain0 + 1)
   \<and> outcome globals_init (tick td0 (11 * Minute + 1) (\<lambda>i. 0) (watch_init (chain0\<lparr>lastBlockTime := 1\<rparr>) globals_init))
     = Some ([False], activeAlerts chain0)
   \<and> outcome globals_init (tick td0 (11 * Minute + 1) (\<lambda>i. 0) (watch_init (chain0\<lparr>lastBlockTime := 1\<rparr>) globals_init))
     \<noteq> Some ([False], activeAlerts chain0 + 1)"
  by (simp add: tick_eval)

text \<open>
  C6, amended. Three of the five conditions are counted in activeAlerts. When the trigger
  predicate of the consecutive-miss, the percentage or the node-down condition holds, its
  check returns (given the validator info and the chain's configuration), sets the alarm,
  calls alert once and adds one to activeAlerts; when its clear predicate holds, the check
  clears the alarm, calls alert once and takes one from activeAlerts; when neither holds,
  the check changes nothing. A whole pass returns under the same condition, sets or clears
  the alarms accordingly (for a node, when the URLs of the nodes differ) and changes
  activeAlerts by the change in the number of counted alarms that are set. The no-RPC
  check and the stalled check leave activeAlerts as it is. Hence, at any point that the
  goroutine reaches, activeAlerts is its initial value plus the number of counted alarms
  that are set, and it is the initial value when none of them is set.
\<close>

theorem activeAlerts_counts_three_conditions:
  "(check_noNodes td sa = Inr sa' \<longrightarrow> activeAlerts (cc sa') = activeAlerts (cc sa))
   \<and> (check_stalled td now sb = Inr sb' \<longrightarrow> activeAlerts (cc sb') = activeAlerts (cc sb))
   \<and> (check_consecutive td sc = Inr sc' \<longrightarrow>
        activeAlerts (cc sc') - activeAlerts (cc sc)
          = (if missedAlarm sc' then 1 else 0) - (if missedAlarm sc then 1 else 0))
   \<and> (check_percentage td sp = Inr sp' \<longrightarrow>
        activeAlerts (cc sp') - activeAlerts (cc sp)
          = (if pctAlarm sp' then 1 else 0) - (if pctAlarm sp then 1 else 0))
   \<and> (check_node td now_node node sn = Inr sn' \<longrightarrow>
        activeAlerts (cc sn') - activeAlerts (cc sn)
          = (if lookup (nodeAlarms sn') (Url node) then 1 else 0)
            - (if lookup (nodeAlarms sn) (Url node) then 1 else 0))
   \<and> (watch td samples (watch_init c g) = Inr sd \<longrightarrow>
        activeAlerts (cc sd) = activeAlerts c + alarm_count sd
        \<and> (\<not> missedAlarm sd \<and> \<not> pctAlarm sd \<and> (\<forall>u. \<not> lookup (nodeAlarms sd) u) \<longrightarrow>
             activeAlerts (cc sd) = activeAlerts c))
   \<and> (consecutive_trigger s \<and> valInfo (cc s) = Some v \<and> Chains td (name (cc s)) = Some ch \<longrightarrow>
        (\<exists>s'. check_consecutive td s = Inr s' \<and> missedAlarm s'
           \<and> activeAlerts (cc s') = activeAlerts (cc s) + 1
           \<and> length (alertChan (glob s')) = Suc (length (alertChan (glob s)))))
   \<and> (consecutive_clear s \<and> valInfo (cc s) = Some v \<and> Chains td (name (cc s)) = Some ch \<longrightarrow>
        (\<exists>s'. check_consecutive td s = Inr s' \<and> \<not> missedAlarm s'
           \<and> activeAlerts (cc s') = activeAlerts (cc s) - 1
           \<and> length (alertChan (glob s')) = Suc (length (alertChan (glob s)))))
   \<and> (percentage_trigger v s \<and> Chains td (name (cc s)) = Some ch \<longrightarrow>
        (\<exists>s'. check_percentage td s = Inr s' \<and> pctAlarm s'
           \<and> activeAlerts (cc s') = activeAlerts (cc s) + 1
           \<and> length (alertChan (glob s')) = Suc (length (alertChan (glob s)))))
   \<and> (percentage_clear v s \<and> Chains td (name (cc s)) = Some ch \<longrightarrow>
        (\<exists>s'. check_percentage td s = Inr s' \<and> \<not> pctAlarm s'
           \<and> activeAlerts (cc s') = activeAlerts (cc s) - 1
           \<and> length (alertChan (glob s')) = Suc (length (alertChan (glob s)))))
   \<and> (node_trigger td now_node node s \<and> Chains td (name (cc s)) = Some ch \<longrightarrow>
        (\<exists>s'. check_node td now_node node s = Inr s' \<and> lookup (nodeAlarms s') (Url node)
           \<and> activeAlerts (cc s') = activeAlerts (cc s) + 1
           \<and> length (alertChan (glob s')) = Suc (length (alertChan (glob s)))))
   \<and> (node_clear node s \<and> Chains td (name (cc s)) = Some ch \<longrightarrow>
        (\<exists>s'. check_node td now_node node s = Inr s' \<and> \<not> lookup (nodeAlarms s') (Url node)
           \<and> activeAlerts (cc s') = activeAlerts (cc s) - 1
           \<and> length (alertChan (glob s')) = Suc (length (alertChan (glob s)))))
   \<and> (\<not> consecutive_trigger s \<and> \<not> consecutive_clear s \<longrightarrow> check_consecutive td s = Inr s)
   \<and> (valInfo (cc s) = Some v \<and> \<not> percentage_trigger v s \<and> \<not> percentage_clear v s \<longrightarrow>
        check_percentage td s = Inr s)
   \<and> (\<not> node_trigger td now_node node s \<and> \<not> node_clear node s \<longrightarrow>
        check_node td now_node node s = Inr s)
   \<and> (valInfo (cc st) = Some v \<and> Chains td (name (cc st)) = Some ch \<longrightarrow>
        (\<exists>s'. tick td now_stalled clock st = Inr s'))
   \<and> (tick td now_stalled clock st = Inr st' \<longrightarrow>
        (consecutive_trigger st \<longrightarrow> missedAlarm st')
        \<and> (consecutive_clear st \<longrightarrow> \<not> missedAlarm st')
        \<and> (percentage_trigger v st \<longrightarrow> pctAlarm st')
        \<and> (percentage_clear v st \<longrightarrow> \<not> pctAlarm st')
        \<and> (distinct (map Url (Nodes (cc st))) \<and> k < length (Nodes (cc st))
              \<and> node_trigger td (clock k) (Nodes (cc st) ! k) st \<longrightarrow>
            lookup (nodeAlarms st') (Url (Nodes (cc st) ! k)))
        \<and> (distinct (map Url (Nodes (cc st))) \<and> k < length (Nodes (cc st))
              \<and> node_clear (Nodes (cc st) ! k) st \<longrightarrow>
            \<not> lookup (nodeAlarms st') (Url (Nodes (cc st) ! k)))
        \<and> (finite {u. lookup (nodeAlarms st) u} \<longrightarrow>
            activeAlerts (cc st') - activeAlerts (cc st) = alarm_count st' - alarm_count st))"
proof -
  have frames: "(check_noNodes td sa = Inr sa' \<longrightarrow> activeAlerts (cc sa') = activeAlerts (cc sa))"
      "(check_stalled td now sb = Inr sb' \<longrightarrow> activeAlerts (cc sb') = activeAlerts (cc sb))"
    using check_noNodes_frame [of td sa sa'] check_stalled_frame [of td now sb sb'] by simp_all
  have deltas: "check_consecutive td sc = Inr sc' \<longrightarrow>
        activeAlerts (cc sc') - activeAlerts (cc sc)
          = (if missedAlarm sc' then 1 else 0) - (if missedAlarm sc then 1 else 0)"
     "check_percentage td sp = Inr sp' \<longrightarrow>
        activeAlerts (cc sp') - activeAlerts (cc sp)
          = (if pctAlarm sp' then 1 else 0) - (if pctAlarm sp then 1 else 0)"
     "check_node td now_node node sn = Inr sn' \<longrightarrow>
        activeAlerts (cc sn') - activeAlerts (cc sn)
          = (if lookup (nodeAlarms sn') (Url node) then 1 else 0)
            - (if lookup (nodeAlarms sn) (Url node) then 1 else 0)"
    using check_consecutive_delta [of td sc sc'] check_percentage_delta [of td sp sp']
      check_node_delta [of td now_node node sn sn'] by simp_all
  have run: "watch td samples (watch_init c g) = Inr sd \<longrightarrow>
        activeAlerts (cc sd) = activeAlerts c + alarm_count sd
        \<and> (\<not> missedAlarm sd \<and> \<not> pctAlarm sd \<and> (\<forall>u. \<not> lookup (nodeAlarms sd) u) \<longrightarrow>
             activeAlerts (cc sd) = activeAlerts c)"
  proof (intro impI conjI)
    assume "watch td samples (watch_init c g) = Inr sd"
    then have b: "balanced (activeAlerts c) sd"
      using watch_balanced [of td samples "watch_init c g" sd "activeAlerts c"] balanced_init [of c g] by simp
    then show "activeAlerts (cc sd) = activeAlerts c + alarm_count sd"
      by (simp add: balanced_def)
    assume "\<not> missedAlarm sd \<and> \<not> pctAlarm sd \<and> (\<forall>u. \<not> lookup (nodeAlarms sd) u)"
    then have "alarm_count sd = 0" by (simp add: alarm_count_def)
    then show "activeAlerts (cc sd) = activeAlerts c"
      using b by (simp add: balanced_def)
  qed
  have e1: "consecutive_trigger s \<and> valInfo (cc s) = Some v \<and> Chains td (name (cc s)) = Some ch \<longrightarrow>
        (\<exists>s'. check_consecutive td s = Inr s' \<and> missedAlarm s'
           \<and> activeAlerts (cc s') = activeAlerts (cc s) + 1
           \<and> length (alertChan (glob s')) = Suc (length (alertChan (glob s))))"
    using consecutive_trigger_edge [of s v td ch] by simp
  have e2: "consecutive_clear s \<and> valInfo (cc s) = Some v \<and> Chains td (name (cc s)) = Some ch \<longrightarrow>
        (\<exists>s'. check_consecutive td s = Inr s' \<and> \<not> missedAlarm s'
           \<and> activeAlerts (cc s') = activeAlerts (cc s) - 1
           \<and> length (alertChan (glob s')) = Suc (length (alertChan (glob s))))"
    using consecutive_clear_edge [of s v td ch] by simp
  have e3: "percentage_trigger v s \<and> Chains td (name (cc s)) = Some ch \<longrightarrow>
        (\<exists>s'. check_percentage td s = Inr s' \<and> pctAlarm s'
           \<and> activeAlerts (cc s') = activeAlerts (cc s) + 1
           \<and> length (alertChan (glob s')) = Suc (length (alertChan (glob s))))"
    using percentage_trigger_edge [of v s td ch] by simp
  have e4: "percentage_clear v s \<and> Chains td (name (cc s)) = Some ch \<longrightarrow>
        (\<exists>s'. check_percentage td s = Inr s' \<and> \<not> pctAlarm s'
           \<and> activeAlerts (cc s') = activeAlerts (cc s) - 1
           \<and> length (alertChan (glob s')) = Suc (length (alertChan (glob s))))"
    using percentage_clear_edge [of v s td ch] by simp
  have e5: "node_trigger td now_node node s \<and> Chains td (name (cc s)) = Some ch \<longrightarrow>
        (\<exists>s'. check_node td now_node node s = Inr s' \<and> lookup (nodeAlarms s') (Url node)
           \<and> activeAlerts (cc s') = activeAlerts (cc s) + 1
           \<and> length (alertChan (glob s')) = Suc (length (alertChan (glob s))))"
    using node_trigger_edge [of td now_node node s ch] by simp
  have e6: "node_clear node s \<and> Chains td (name (cc s)) = Some ch \<longrightarrow>
        (\<exists>s'. check_node td now_node node s = Inr s' \<and> \<not> lookup (nodeAlarms s') (Url node)
           \<and> activeAlerts (cc s') = activeAlerts (cc s) - 1
           \<and> length (alertChan (glob s')) = Suc (length (alertChan (glob s))))"
    using node_clear_edge [of node s td ch now_node] by simp
  have returns: "valInfo (cc st) = Some v \<and> Chains td (name (cc st)) = Some ch \<longrightarrow>
        (\<exists>s'. tick td now_stalled clock st = Inr s')"
    using tick_ok [of st v td ch now_stalled clock] by simp
  have pass: "tick td now_stalled clock st = Inr st' \<longrightarrow>
        (consecutive_trigger st \<longrightarrow> missedAlarm st')
        \<and> (consecutive_clear st \<longrightarrow> \<not> missedAlarm st')
        \<and> (percentage_trigger v st \<longrightarrow> pctAlarm st')
        \<and> (percentage_clear v st \<longrightarrow> \<not> pctAlarm st')
        \<and> (distinct (map Url (Nodes (cc st))) \<and> k < length (Nodes (cc st))
              \<and> node_trigger td (clock k) (Nodes (cc st) ! k) st \<longrightarrow>
            lookup (nodeAlarms st') (Url (Nodes (cc st) ! k)))
        \<and> (distinct (map Url (Nodes (cc st))) \<and> k < length (Nodes (cc st))
              \<and> node_clear (Nodes (cc st) ! k) st \<longrightarrow>
            \<not> lookup (nodeAlarms st') (Url (Nodes (cc st) ! k)))
        \<and> (finite {u. lookup (nodeAlarms st) u} \<longrightarrow>
            activeAlerts (cc st') - activeAlerts (cc st) = alarm_count st' - alarm_count st)"
  proof (intro impI conjI)
    assume t: "tick td now_stalled clock st = Inr st'"
    note c = tick_sets(1) [OF t] and p = tick_sets(2) [OF t, of v]
    { assume "consecutive_trigger st" then show "missedAlarm st'" using c by simp }
    { assume "consecutive_clear st" then show "\<not> missedAlarm st'" using c by simp }
    { assume "percentage_trigger v st" then show "pctAlarm st'" using p by simp }
    { assume "percentage_clear v st" then show "\<not> pctAlarm st'" using p by simp }
    { assume "distinct (map Url (Nodes (cc st))) \<and> k < length (Nodes (cc st))
              \<and> node_trigger td (clock k) (Nodes (cc st) ! k) st"
      then show "lookup (nodeAlarms st') (Url (Nodes (cc st) ! k))"
        using tick_sets(3) [OF t, of k] by simp }
    { assume "distinct (map Url (Nodes (cc st))) \<and> k < length (Nodes (cc st))
              \<and> node_clear (Nodes (cc st) ! k) st"
      then show "\<not> lookup (nodeAlarms st') (Url (Nodes (cc st) ! k))"
        using tick_sets(3) [OF t, of k] by simp }
    { assume "finite {u. lookup (nodeAlarms st) u}"
      then show "activeAlerts (cc st') - activeAlerts (cc st) = alarm_count st' - alarm_count st"
        using tick_counts [OF t] by simp }
  qed
  show ?thesis
    apply (intro conjI)
                 apply (rule frames(1))
                apply (rule frames(2))
               apply (rule deltas(1))
              apply (rule deltas(2))
             apply (rule deltas(3))
            apply (rule run)
           apply (rule e1)
          apply (rule e2)
         apply (rule e3)
        apply (rule e4)
          apply (rule e5)
         apply (rule e6)
        apply (rule checks_idle(1))
       apply (rule checks_idle(2))
      apply (rule checks_idle(3))
     apply (rule returns)
    apply (rule pass)
    done
qed

lemmas edge_eval = consecutive_trigger_def consecutive_clear_def percentage_trigger_def
  percentage_clear_def node_trigger_def node_clear_def node_down_def chain_bad_def state_alarmed_def

theorem activeAlerts_counts_three_conditions_witness:
  "(\<exists>s1. check_noNodes td0 (watch_init (chain0\<lparr>noNodes := True\<rparr>) globals_init) = Inr s1
        \<and> noNodes_local s1 \<and> activeAlerts (cc s1) = 0)
   \<and> (\<exists>s2. check_stalled td0 (11 * Minute + 1) (watch_init (chain0\<lparr>lastBlockTime := 1\<rparr>) globals_init) = Inr s2
        \<and> lastBlockAlarm (cc s2) \<and> activeAlerts (cc s2) = 0)
   \<and> (\<exists>s6. watch td0 samples0 (watch_init chain0 globals_init) = Inr s6
        \<and> \<not> missedAlarm s6 \<and> \<not> pctAlarm s6 \<and> (\<forall>u. \<not> lookup (nodeAlarms s6) u)
        \<and> length (alertChan (glob s6)) = 2 \<and> activeAlerts (cc s6) = activeAlerts chain0)
   \<and> consecutive_trigger (watch_init chain_bad globals_init)
   \<and> (\<exists>s'. check_consecutive td0 (watch_init chain_bad globals_init) = Inr s'
        \<and> missedAlarm s' \<and> activeAlerts (cc s') = 1 \<and> length (alertChan (glob s')) = 1)
   \<and> consecutive_clear state_alarmed
   \<and> (\<exists>s'. check_consecutive td0 state_alarmed = Inr s'
        \<and> \<not> missedAlarm s' \<and> activeAlerts (cc s') = - 1 \<and> length (alertChan (glob s')) = 1)
   \<and> percentage_trigger (val0\<lparr>Missed := 50\<rparr>) (watch_init chain_bad globals_init)
   \<and> (\<exists>s'. check_percentage td0 (watch_init chain_bad globals_init) = Inr s'
        \<and> pctAlarm s' \<and> activeAlerts (cc s') = 1 \<and> length (alertChan (glob s')) = 1)
   \<and> percentage_clear val0 state_alarmed
   \<and> (\<exists>s'. check_percentage td0 state_alarmed = Inr s'
        \<and> \<not> pctAlarm s' \<and> activeAlerts (cc s') = - 1 \<and> length (alertChan (glob s')) = 1)
   \<and> node_trigger td0 (11 * Minute + 1) node_down (watch_init chain_bad globals_init)
   \<and> (\<exists>s'. check_node td0 (11 * Minute + 1) node_down (watch_init chain_bad globals_init) = Inr s'
        \<and> lookup (nodeAlarms s') (Url node_down) \<and> activeAlerts (cc s') = 1
        \<and> length (alertChan (glob s')) = 1)
   \<and> node_clear node0 state_alarmed
   \<and> (\<exists>s'. check_node td0 0 node0 state_alarmed = Inr s'
        \<and> \<not> lookup (nodeAlarms s') (Url node0) \<and> activeAlerts (cc s') = - 1
        \<and> length (alertChan (glob s')) = 1)
   \<and> \<not> consecutive_trigger (watch_init chain0 globals_init)
   \<and> \<not> consecutive_clear (watch_init chain0 globals_init)
   \<and> check_consecutive td0 (watch_init chain0 globals_init) = Inr (watch_init chain0 globals_init)
   \<and> \<not> percentage_trigger val0 (watch_init chain0 globals_init)
   \<and> \<not> percentage_clear val0 (watch_init chain0 globals_init)
   \<and> check_percentage td0 (watch_init chain0 globals_init) = Inr (watch_init chain0 globals_init)
   \<and> \<not> node_trigger td0 0 node0 (watch_init chain0 globals_init)
   \<and> \<not> node_clear node0 (watch_init chain0 globals_init)
   \<and> check_node td0 0 node0 (watch_init chain0 globals_init) = Inr (watch_init chain0 globals_init)
   \<and> (\<exists>s'. tick td0 0 (\<lambda>i. 11 * Minute + 1) (watch_init chain_bad globals_init) = Inr s'
        \<and> missedAlarm s' \<and> pctAlarm s' \<and> lookup (nodeAlarms s') (Url node_down)
        \<and> alarm_count s' = 3 \<and> activeAlerts (cc s') = 3)
   \<and> (\<exists>s'. tick td0 0 (\<lambda>i. 0) state_alarmed = Inr s'
        \<and> \<not> missedAlarm s' \<and> \<not> pctAlarm s' \<and> \<not> lookup (nodeAlarms s') (Url node0)
        \<and> activeAlerts (cc s') = - 3)"
proof -
  let ?i1 = "watch_init (chain0\<lparr>noNodes := True\<rparr>) globals_init"
  let ?i2 = "watch_init (chain0\<lparr>lastBlockTime := 1\<rparr>) globals_init"
  let ?bad = "watch_init chain_bad globals_init"
  let ?T = "11 * Minute + 1"
  let ?v = "val0\<lparr>Missed := 50\<rparr>"
  obtain s1 where s1: "check_noNodes td0 ?i1 = Inr s1" "noNodes_local s1"
    by (simp add: tick_eval)
  obtain s2 where s2: "check_stalled td0 ?T ?i2 = Inr s2" "lastBlockAlarm (cc s2)"
    by (simp add: tick_eval)
  obtain s6 where s6: "watch td0 samples0 (watch_init chain0 globals_init) = Inr s6"
    "\<not> missedAlarm s6" "\<not> pctAlarm s6" "\<forall>u. \<not> lookup (nodeAlarms s6) u" "length (alertChan (glob s6)) = 2"
    by (simp add: samples0_def waiting_def wait_pass_def tick_eval)
  obtain t1 where t1: "tick td0 0 (\<lambda>i. ?T) ?bad = Inr t1" "activeAlerts (cc t1) = 3"
    by (simp add: tick_eval edge_eval)
  obtain t2 where t2: "tick td0 0 (\<lambda>i. 0) state_alarmed = Inr t2" "activeAlerts (cc t2) = - 3"
    by (simp add: tick_eval edge_eval)
  have pre: "consecutive_trigger ?bad" "consecutive_clear state_alarmed"
    "percentage_trigger ?v ?bad" "percentage_clear val0 state_alarmed"
    "node_trigger td0 ?T node_down ?bad" "node_clear node0 state_alarmed"
    by (simp_all add: tick_eval edge_eval)
  have cfg: "valInfo (cc ?bad) = Some ?v" "valInfo (cc state_alarmed) = Some val0"
    "Chains td0 (name (cc ?bad)) = Some chain0" "Chains td0 (name (cc state_alarmed)) = Some chain0"
    "activeAlerts (cc ?bad) = 0" "activeAlerts (cc state_alarmed) = 0"
    "length (alertChan (glob ?bad)) = 0" "length (alertChan (glob state_alarmed)) = 0"
    "activeAlerts (cc ?i1) = 0" "activeAlerts (cc ?i2) = 0"
    by (simp_all add: tick_eval edge_eval)
  have idle: "\<not> consecutive_trigger (watch_init chain0 globals_init)"
    "\<not> consecutive_clear (watch_init chain0 globals_init)"
    "\<not> percentage_trigger val0 (watch_init chain0 globals_init)"
    "\<not> percentage_clear val0 (watch_init chain0 globals_init)"
    "\<not> node_trigger td0 0 node0 (watch_init chain0 globals_init)"
    "\<not> node_clear node0 (watch_init chain0 globals_init)"
    "valInfo (cc (watch_init chain0 globals_init)) = Some val0"
    by (simp_all add: tick_eval edge_eval)
  have nodes: "Nodes (cc ?bad) = [node_down]" "Nodes (cc state_alarmed) = [node0]"
    "finite {u. lookup (nodeAlarms ?bad) u}" "alarm_count ?bad = 0"
    by (simp_all add: tick_eval edge_eval alarm_count_def)
  note A = activeAlerts_counts_three_conditions [where td = td0 and sa = ?i1 and sa' = s1
      and now = ?T and sb = ?i2 and sb' = s2 and samples = samples0 and c = chain0
      and g = globals_init and sd = s6]
  note B = activeAlerts_counts_three_conditions [where td = td0 and s = ?bad and v = ?v
      and ch = chain0 and now_node = ?T and node = node_down and st = ?bad and st' = t1
      and now_stalled = 0 and clock = "\<lambda>i. ?T" and k = 0]
  note C = activeAlerts_counts_three_conditions [where td = td0 and s = state_alarmed and v = val0
      and ch = chain0 and now_node = 0 and node = node0 and st = state_alarmed and st' = t2
      and now_stalled = 0 and clock = "\<lambda>i. 0" and k = 0]
  note D = activeAlerts_counts_three_conditions [where td = td0
      and s = "watch_init chain0 globals_init" and v = val0 and now_node = 0 and node = node0]
  show ?thesis
    using s1 s2 s6 t1 t2 pre cfg nodes idle A B C D
    by simp
qed

subsection \<open>The consecutive-miss alarm\<close>











end
